theory Spec2Isabelle
  imports Complex_Main "HOL-Library.AList"
begin

section \<open>Data model of the reader (Final.py)\<close>

text \<open>
  A block is one of the two dictionaries the loader builds:
  \<^verbatim>\<open>{"type": "text", "text": text}\<close> and
  \<^verbatim>\<open>{"type": "image", "data": b64, "alt": alt}\<close>.
  Strings are lists of characters; Python's \<^verbatim>\<open>len\<close> is \<^const>\<open>length\<close>.
\<close>

datatype block =
    TextBlock (block_text: string)
  | ImageBlock (block_data: string) (block_alt: string)

text \<open>The dataclass \<^verbatim>\<open>ChapterPage\<close>, field by field.\<close>

record ChapterPage =
  chapter_index :: nat
  chapter_title :: string
  page_in_chapter :: int
  blocks :: "block list"

text \<open>
  An entry of \<^verbatim>\<open>EpubBook.chapters\<close>: the dictionary
  \<^verbatim>\<open>{"title": chap_title, "blocks": blocks}\<close>, with the keys as the fields
  \<open>ctitle\<close> and \<open>cblocks\<close>.
\<close>

record chap =
  ctitle :: string
  cblocks :: "block list"

text \<open>The parsed book: \<^verbatim>\<open>self.title\<close>, \<^verbatim>\<open>self.author\<close>, \<^verbatim>\<open>self.chapters\<close>.\<close>

record EpubBook =
  title :: string
  author :: string
  chapters :: "chap list"

section \<open>Double-precision arithmetic\<close>

text \<open>
  Two expressions of the paginator are computed in IEEE-754 double precision and then
  truncated by \<^verbatim>\<open>int\<close>: the quotient \<^verbatim>\<open>base * 18 / max(10, font_size)\<close> and the
  product \<^verbatim>\<open>limit * 0.35\<close>. Both operations return the double nearest to the exact
  result, ties to the even mantissa. A double has 53 significant bits, so the exact
  result, scaled by a power of two into an integer \<open>n\<close> of more than 53 bits, is rounded
  at bit \<open>bit_length n - 53\<close>; \<open>sticky\<close> says that the exact result has further non-zero
  bits below \<open>n\<close>. (The results met here are far from the overflow and subnormal
  ranges.)
\<close>

fun bit_length :: "nat \<Rightarrow> nat" where
  "bit_length n = (if n = 0 then 0 else bit_length (n div 2) + 1)"

declare bit_length.simps [simp del]

definition round_to_53_bits :: "nat \<Rightarrow> bool \<Rightarrow> nat" where
  "round_to_53_bits n sticky =
     (if bit_length n \<le> 53 then n
      else let shift = bit_length n - 53;
               q = n div 2 ^ shift;
               r = n mod 2 ^ shift;
               half = 2 ^ (shift - 1)
           in (if r > half \<or> (r = half \<and> (sticky \<or> odd q)) then q + 1 else q) * 2 ^ shift)"

text \<open>
  \<^verbatim>\<open>int(n / d)\<close> for integers \<open>0 \<le> n\<close> and \<open>0 < d\<close>: the quotient is scaled by
  \<open>2 ^ k\<close> with \<open>k\<close> large enough for more than 53 bits, rounded, and truncated.
\<close>

definition double_div_trunc :: "nat \<Rightarrow> nat \<Rightarrow> nat" where
  "double_div_trunc n d =
     (let k = 53 + bit_length d;
          s = (n * 2 ^ k) div d;
          sticky = ((n * 2 ^ k) mod d \<noteq> 0)
      in round_to_53_bits s sticky div 2 ^ k)"

section \<open>The character budget\<close>

text \<open>
  \<^verbatim>\<open>
  def chars_per_page(font_size: int) -> int:
      base = 3200
      return max(800, int(base * 18 / max(10, font_size)))
  \<close>
\<close>

definition chars_per_page :: "int \<Rightarrow> int" where
  "chars_per_page font_size =
     (let base = 3200
      in max 800 (int (double_div_trunc (nat (base * 18)) (nat (max 10 font_size)))))"

section \<open>The image weight\<close>

text \<open>
  \<^verbatim>\<open>img_cost = int(limit * 0.35)\<close>. The literal \<^verbatim>\<open>0.35\<close> is the double
  \<^verbatim>\<open>0x1.6666666666666p-2\<close>, that is 3152519739159347 / 2^53. For an integer \<open>limit\<close>
  below 2^53 in magnitude the exact product is \<open>limit * 3152519739159347 / 2^53\<close>; its
  numerator is rounded to 53 bits, and \<^verbatim>\<open>int\<close> truncates towards zero.
\<close>

definition double_0_35_num :: nat where
  "double_0_35_num = 3152519739159347"

definition img_cost :: "int \<Rightarrow> int" where
  "img_cost limit =
     (let p = round_to_53_bits (nat \<bar>limit\<bar> * double_0_35_num) False div 2 ^ 53
      in if limit < 0 then - int p else int p)"

section \<open>The paginator\<close>

text \<open>
  The variables of one chapter's loop in \<^verbatim>\<open>paginate_book\<close>: the page list \<^verbatim>\<open>pages\<close>
  (shared by all chapters), the buffer \<^verbatim>\<open>current_blocks\<close>, the running cost
  \<^verbatim>\<open>current_chars\<close> and the counter \<^verbatim>\<open>page_in_chapter\<close> (here \<open>page_counter\<close>, the
  field name being taken by \<^typ>\<open>ChapterPage\<close>).
\<close>

record pstate =
  pages :: "ChapterPage list"
  current_blocks :: "block list"
  current_chars :: int
  page_counter :: int

text \<open>
  \<^verbatim>\<open>
  def flush_page():
      if not current_blocks:
          return
      pages.append(ChapterPage(chapter_index=chap_index, chapter_title=chap_title,
                               page_in_chapter=page_in_chapter, blocks=current_blocks))
      page_in_chapter += 1
      current_blocks = []
      current_chars = 0
  \<close>
\<close>

definition flush_page :: "nat \<Rightarrow> string \<Rightarrow> pstate \<Rightarrow> pstate" where
  "flush_page chap_index chap_title st =
     (if current_blocks st = [] then st
      else st\<lparr>pages := pages st @
                  [\<lparr>chapter_index = chap_index, chapter_title = chap_title,
                    page_in_chapter = page_counter st, blocks = current_blocks st\<rparr>],
              page_counter := page_counter st + 1,
              current_blocks := [],
              current_chars := 0\<rparr>)"

text \<open>
  The body of \<^verbatim>\<open>for blk in blocks\<close>:
  \<^verbatim>\<open>
  if blk["type"] == "text":
      length = len(blk["text"])
      if current_blocks and current_chars + length > limit:
          flush_page()
      current_blocks.append(blk)
      current_chars += length
  else:
      img_cost = int(limit * 0.35)
      if current_blocks and current_chars + img_cost > limit:
          flush_page()
      current_blocks.append(blk)
      current_chars += img_cost
  \<close>
\<close>

fun add_block :: "int \<Rightarrow> nat \<Rightarrow> string \<Rightarrow> pstate \<Rightarrow> block \<Rightarrow> pstate" where
  "add_block limit chap_index chap_title st (TextBlock t) =
     (let len = int (length t);
          st1 = (if current_blocks st \<noteq> [] \<and> current_chars st + len > limit
                 then flush_page chap_index chap_title st else st)
      in st1\<lparr>current_blocks := current_blocks st1 @ [TextBlock t],
              current_chars := current_chars st1 + len\<rparr>)"
| "add_block limit chap_index chap_title st (ImageBlock d a) =
     (let cost = img_cost limit;
          st1 = (if current_blocks st \<noteq> [] \<and> current_chars st + cost > limit
                 then flush_page chap_index chap_title st else st)
      in st1\<lparr>current_blocks := current_blocks st1 @ [ImageBlock d a],
              current_chars := current_chars st1 + cost\<rparr>)"

text \<open>
  One iteration of \<^verbatim>\<open>for chap_index, chap in enumerate(epub_book.chapters)\<close>: fresh
  buffer, cost 0, counter 1, the block loop, and the closing \<^verbatim>\<open>flush_page()\<close>.
\<close>

definition paginate_chapter :: "int \<Rightarrow> ChapterPage list \<Rightarrow> nat \<times> chap \<Rightarrow> ChapterPage list" where
  "paginate_chapter limit pgs ic =
     (case ic of (chap_index, ch) \<Rightarrow>
        pages (flush_page chap_index (ctitle ch)
          (foldl (add_block limit chap_index (ctitle ch))
             \<lparr>pages = pgs, current_blocks = [], current_chars = 0, page_counter = 1\<rparr>
             (cblocks ch))))"

definition paginate_chapters :: "int \<Rightarrow> chap list \<Rightarrow> ChapterPage list" where
  "paginate_chapters limit chs = foldl (paginate_chapter limit) [] (enumerate 0 chs)"

text \<open>
  Of the dataclass \<^verbatim>\<open>Settings\<close> the paginator reads \<^verbatim>\<open>font_size\<close> only; the
  presentation fields are carried along unread (the float \<^verbatim>\<open>line_height\<close> is left out).
\<close>

record Settings =
  font_size :: int
  theme :: string
  font_key :: string
  margins :: bool
  bold :: bool

definition paginate_book :: "EpubBook \<Rightarrow> Settings \<Rightarrow> ChapterPage list" where
  "paginate_book epub_book settings =
     paginate_chapters (chars_per_page (font_size settings)) (chapters epub_book)"

section \<open>String operations of the loader\<close>

text \<open>
  A Python string is modelled as a list of characters, one \<^typ>\<open>char\<close> for each code point
  (code points below 256). \<^verbatim>\<open>str.strip()\<close> removes leading and trailing whitespace;
  below 256 the whitespace characters are 9 to 13, 28 to 32, 133 and 160.
\<close>

definition py_isspace :: "char \<Rightarrow> bool" where
  "py_isspace c =
     (let n = (of_char c :: nat)
      in (9 \<le> n \<and> n \<le> 13) \<or> (28 \<le> n \<and> n \<le> 32) \<or> n = 133 \<or> n = 160)"

definition py_strip :: "string \<Rightarrow> string" where
  "py_strip s = rev (dropWhile py_isspace (rev (dropWhile py_isspace s)))"

text \<open>\<^verbatim>\<open>sep.join(parts)\<close>.\<close>

fun join :: "string \<Rightarrow> string list \<Rightarrow> string" where
  "join sep [] = []"
| "join sep [x] = x"
| "join sep (x # y # ys) = x @ sep @ join sep (y # ys)"

text \<open>\<^verbatim>\<open>s.split("#")[0]\<close>: the part before the first \<^verbatim>\<open>#\<close>, all of \<open>s\<close> when there is none.\<close>

definition split_first :: "char \<Rightarrow> string \<Rightarrow> string" where
  "split_first c s = takeWhile (\<lambda>x. x \<noteq> c) s"

text \<open>\<^verbatim>\<open>s.lstrip(chars)\<close>: drops every leading character that occurs in \<open>chars\<close>.\<close>

definition lstrip :: "string \<Rightarrow> string \<Rightarrow> string" where
  "lstrip chars s = dropWhile (\<lambda>x. x \<in> set chars) s"

text \<open>
  \<^verbatim>\<open>s.replace(old, new)\<close>: the occurrences of \<open>old\<close> are found from the left, without
  overlap. (For an empty \<open>old\<close> Python puts \<open>new\<close> around every character.)
\<close>

function str_replace :: "string \<Rightarrow> string \<Rightarrow> string \<Rightarrow> string" where
  "str_replace old new s =
     (if old = [] then new @ concat (map (\<lambda>c. c # new) s)
      else if s = [] then []
      else if take (length old) s = old
        then new @ str_replace old new (drop (length old) s)
      else hd s # str_replace old new (tl s))"
  by pat_completeness auto
termination
  by (relation "measure (\<lambda>(old, new, s). length s)") auto

declare str_replace.simps [simp del]

text \<open>\<^verbatim>\<open>os.path.basename(p)\<close> (POSIX): what follows the last \<^verbatim>\<open>/\<close>.\<close>

definition basename :: "string \<Rightarrow> string" where
  "basename p = rev (takeWhile (\<lambda>x. x \<noteq> CHR ''/'') (rev p))"

section \<open>The parsed markup\<close>

text \<open>
  The tree that \<^verbatim>\<open>BeautifulSoup(item.get_content(), "html.parser")\<close> returns: a tag has
  a name, its attribute dictionary and its children; a string node has its text. A string
  node is a \<^verbatim>\<open>NavigableString\<close> (text, also character data), or it belongs to one of
  the other string classes, here \<open>OtherString\<close>: \<^verbatim>\<open>Comment\<close>, \<^verbatim>\<open>Doctype\<close>,
  \<^verbatim>\<open>Declaration\<close>, \<^verbatim>\<open>ProcessingInstruction\<close>, and the strings inside
  \<^verbatim>\<open>script\<close>, \<^verbatim>\<open>style\<close> and \<^verbatim>\<open>template\<close> elements. The soup object itself is the
  root tag, named \<^verbatim>\<open>[document]\<close>. Parsing bytes into this tree is the library's work
  and is not modelled.
\<close>

datatype node =
    Tag (tag_name: string) (tag_attrs: "(string \<times> string) list") (tag_contents: "node list")
  | NavigableString string
  | OtherString string

text \<open>\<^verbatim>\<open>tag.descendants\<close>: every node below the tag, in document order.\<close>

fun descendants :: "node \<Rightarrow> node list" where
  "descendants (Tag n a cs) = concat (map (\<lambda>c. c # descendants c) cs)"
| "descendants (NavigableString s) = []"
| "descendants (OtherString s) = []"

text \<open>\<^verbatim>\<open>getattr(elem, "name", None)\<close>: a string node has no name.\<close>

fun node_name :: "node \<Rightarrow> string option" where
  "node_name (Tag n a cs) = Some n"
| "node_name (NavigableString s) = None"
| "node_name (OtherString s) = None"

text \<open>\<^verbatim>\<open>elem.get(key)\<close> and \<^verbatim>\<open>elem.get(key, default)\<close> on a tag's attributes.\<close>

fun get_attr :: "node \<Rightarrow> string \<Rightarrow> string option" where
  "get_attr (Tag n a cs) k = map_of a k"
| "get_attr (NavigableString s) k = None"
| "get_attr (OtherString s) k = None"

text \<open>
  \<^verbatim>\<open>elem.get_text(sep, strip=True)\<close> on an element that is not itself a \<^verbatim>\<open>script\<close>,
  \<^verbatim>\<open>style\<close> or \<^verbatim>\<open>template\<close>: the \<^verbatim>\<open>NavigableString\<close>s below the element, each
  stripped, the empty ones left out, joined by \<open>sep\<close>. Strings of the other classes are
  passed over.
\<close>

fun string_of :: "node \<Rightarrow> string list" where
  "string_of (NavigableString s) = [s]"
| "string_of (OtherString s) = []"
| "string_of (Tag n a cs) = []"

definition get_text :: "string \<Rightarrow> node \<Rightarrow> string" where
  "get_text sep elem =
     join sep (filter (\<lambda>s. s \<noteq> []) (map py_strip (concat (map string_of (descendants elem)))))"

text \<open>
  \<^verbatim>\<open>soup.find(names)\<close>: the first tag below the soup, in document order, whose name is
  one of \<open>names\<close>; \<^verbatim>\<open>soup.body\<close> is \<^verbatim>\<open>soup.find("body")\<close>.
\<close>

definition has_name :: "string list \<Rightarrow> node \<Rightarrow> bool" where
  "has_name names e = (case node_name e of Some n \<Rightarrow> n \<in> set names | None \<Rightarrow> False)"

definition find_tag :: "string list \<Rightarrow> node \<Rightarrow> node option" where
  "find_tag names soup = find (has_name names) (descendants soup)"

definition body :: "node \<Rightarrow> node option" where
  "body soup = find_tag [''body''] soup"

section \<open>The loader \<^verbatim>\<open>EpubBook._load\<close>\<close>

text \<open>
  What \<^verbatim>\<open>epub.read_epub\<close> returns, as far as the loader reads it: the Dublin Core
  \<^verbatim>\<open>title\<close> and \<^verbatim>\<open>creator\<close> entries (a list of pairs of a value and its attributes)
  and the items. An image item has a file name and its content; a document item is given
  by its parsed tree.
\<close>

datatype item =
    EpubImage (file_name: string) (content: string)
  | EpubHtml (soup_of: node)
  | EpubItem

record package =
  dc_title :: "(string \<times> (string \<times> string) list) list"
  dc_creator :: "(string \<times> (string \<times> string) list) list"
  get_items :: "item list"

text \<open>
  \<^verbatim>\<open>
  images = {}
  for item in book.get_items():
      if isinstance(item, epub.EpubImage):
          images[item.file_name] = item.get_content()
  \<close>
  A dictionary keeps its keys in the order of their first insertion; a later assignment to
  a key replaces the value in place, which is \<^const>\<open>AList.update\<close> on an association list.
\<close>

fun add_image :: "(string \<times> string) list \<Rightarrow> item \<Rightarrow> (string \<times> string) list" where
  "add_image images (EpubImage fn c) = AList.update fn c images"
| "add_image images (EpubHtml d) = images"
| "add_image images EpubItem = images"

definition image_map :: "item list \<Rightarrow> (string \<times> string) list" where
  "image_map its = foldl add_image [] its"

text \<open>
  \<^verbatim>\<open>
  key = src.split("#")[0]
  key = key.lstrip("./").replace("../", "")
  \<close>
\<close>

definition normalize_src :: "string \<Rightarrow> string" where
  "normalize_src src =
     (let key = split_first CHR ''#'' src
      in str_replace ''../'' [] (lstrip ''./'' key))"

text \<open>
  \<^verbatim>\<open>
  if key not in images:
      only_name = os.path.basename(key)
      for k in images.keys():
          if os.path.basename(k) == only_name:
              key = k
              break
  \<close>
\<close>

definition resolve_key :: "(string \<times> string) list \<Rightarrow> string \<Rightarrow> string" where
  "resolve_key images key =
     (if key \<notin> set (map fst images)
      then (let only_name = basename key
            in case find (\<lambda>k. basename k = only_name) (map fst images) of
                 Some k \<Rightarrow> k
               | None \<Rightarrow> key)
      else key)"

text \<open>
  The body of \<^verbatim>\<open>for elem in soup.body.descendants\<close>, as a function from the block list
  to the block list. \<open>b64\<close> stands for \<^verbatim>\<open>base64.b64encode(...).decode("utf-8")\<close>, a
  library function.
  \<^verbatim>\<open>
  if getattr(elem, "name", None) in ("p", "h1", "h2", "h3", "li"):
      text = elem.get_text(" ", strip=True)
      if text:
          blocks.append({"type": "text", "text": text})
  if getattr(elem, "name", None) == "img":
      src = elem.get("src")
      if not src:
          continue
      ... key ...
      if key in images:
          b64 = base64.b64encode(images[key]).decode("utf-8")
          blocks.append({"type": "image", "data": b64, "alt": elem.get("alt", "")})
  \<close>
\<close>

definition text_step :: "block list \<Rightarrow> node \<Rightarrow> block list" where
  "text_step blks elem =
     (if node_name elem \<in> Some ` set [''p'', ''h1'', ''h2'', ''h3'', ''li'']
      then (let t = get_text '' '' elem in if t \<noteq> [] then blks @ [TextBlock t] else blks)
      else blks)"

definition img_step :: "(string \<Rightarrow> string) \<Rightarrow> (string \<times> string) list \<Rightarrow> block list \<Rightarrow> node \<Rightarrow> block list" where
  "img_step b64 images blks elem =
     (if node_name elem = Some ''img''
      then (case get_attr elem ''src'' of
              None \<Rightarrow> blks
            | Some src \<Rightarrow>
                if src = [] then blks
                else (let key = resolve_key images (normalize_src src)
                      in case map_of images key of
                           Some c \<Rightarrow>
                             blks @ [ImageBlock (b64 c)
                                      (case get_attr elem ''alt'' of Some a \<Rightarrow> a | None \<Rightarrow> [])]
                         | None \<Rightarrow> blks))
      else blks)"

definition elem_step :: "(string \<Rightarrow> string) \<Rightarrow> (string \<times> string) list \<Rightarrow> block list \<Rightarrow> node \<Rightarrow> block list" where
  "elem_step b64 images blks elem = img_step b64 images (text_step blks elem) elem"

definition extract_blocks :: "(string \<Rightarrow> string) \<Rightarrow> (string \<times> string) list \<Rightarrow> node \<Rightarrow> block list" where
  "extract_blocks b64 images bd = foldl (elem_step b64 images) [] (descendants bd)"

text \<open>
  One document item: nothing without a body;
  \<^verbatim>\<open>
  heading = soup.find(["h1", "h2", "h3"])
  chap_title = heading.get_text(strip=True) if heading else self.title
  \<close>
  then the blocks, and a chapter only \<^verbatim>\<open>if blocks\<close>.
\<close>

definition chap_title_of :: "string \<Rightarrow> node \<Rightarrow> string" where
  "chap_title_of book_title soup =
     (case find_tag [''h1'', ''h2'', ''h3''] soup of
        Some heading \<Rightarrow> get_text [] heading
      | None \<Rightarrow> book_title)"

fun load_item :: "(string \<Rightarrow> string) \<Rightarrow> string \<Rightarrow> (string \<times> string) list \<Rightarrow> chap list \<Rightarrow> item \<Rightarrow> chap list" where
  "load_item b64 book_title images chs (EpubHtml soup) =
     (case body soup of
        None \<Rightarrow> chs
      | Some bd \<Rightarrow>
          (let chap_title = chap_title_of book_title soup;
               blks = extract_blocks b64 images bd
           in if blks \<noteq> [] then chs @ [\<lparr>ctitle = chap_title, cblocks = blks\<rparr>] else chs))"
| "load_item b64 book_title images chs (EpubImage fn c) = chs"
| "load_item b64 book_title images chs EpubItem = chs"

text \<open>
  \<^verbatim>\<open>EpubBook.__init__\<close> sets \<^verbatim>\<open>self.title = path.stem\<close> and
  \<^verbatim>\<open>self.author = "Desconocido"\<close>; \<^verbatim>\<open>_load\<close> then reads the metadata:
  \<^verbatim>\<open>
  t = book.get_metadata("DC", "title")
  a = book.get_metadata("DC", "creator")
  if t: self.title = t[0][0]
  if a: self.author = a[0][0]
  \<close>
  \<open>stem\<close> is \<^verbatim>\<open>path.stem\<close>, computed by \<^verbatim>\<open>pathlib\<close>.
\<close>

definition load :: "(string \<Rightarrow> string) \<Rightarrow> string \<Rightarrow> package \<Rightarrow> EpubBook" where
  "load b64 stem book =
     (let t = dc_title book;
          a = dc_creator book;
          title1 = (case t of [] \<Rightarrow> stem | x # _ \<Rightarrow> fst x);
          author1 = (case a of [] \<Rightarrow> ''Desconocido'' | x # _ \<Rightarrow> fst x);
          images = image_map (get_items book)
      in \<lparr>title = title1, author = author1,
          chapters = foldl (load_item b64 title1 images) [] (get_items book)\<rparr>)"

text \<open>
  The constructor raises \<^verbatim>\<open>RuntimeError\<close> when the two libraries could not be
  imported, and \<^verbatim>\<open>epub.read_epub\<close> may raise; an exception is its message. \<open>opened\<close> is
  what \<^verbatim>\<open>epub.read_epub(str(path))\<close> does on this path.
\<close>

datatype exn = Exn (message: string)

definition EpubBook_init :: "bool \<Rightarrow> (string \<Rightarrow> string) \<Rightarrow> string \<Rightarrow> exn + package \<Rightarrow> exn + EpubBook" where
  "EpubBook_init libs b64 stem opened =
     (if \<not> libs
      then Inl (Exn (''Las librer'' @ [CHR 0xED] @
                     ''as 'ebooklib' y 'beautifulsoup4' son necesarias.'' @ [CHR 0x0A] @
                     ''Inst'' @ [CHR 0xE1] @ ''lalas con: pip install ebooklib beautifulsoup4''))
      else case opened of
             Inl e \<Rightarrow> Inl e
           | Inr book \<Rightarrow> Inr (load b64 stem book))"

text \<open>
  \<^verbatim>\<open>
  def get_epub_metadata(path):
      if epub is None:
          return path.stem, ""
      try:
          book = epub.read_epub(str(path))
          t = book.get_metadata("DC", "title")
          a = book.get_metadata("DC", "creator")
          title = t[0][0] if t else path.stem
          author = a[0][0] if a else ""
          return title, author
      except Exception:
          return path.stem, ""
  \<close>
\<close>

definition get_epub_metadata :: "bool \<Rightarrow> string \<Rightarrow> exn + package \<Rightarrow> string \<times> string" where
  "get_epub_metadata libs stem opened =
     (if \<not> libs then (stem, [])
      else case opened of
             Inl e \<Rightarrow> (stem, [])
           | Inr book \<Rightarrow>
               (let t = dc_title book;
                    a = dc_creator book
                in ((case t of [] \<Rightarrow> stem | x # _ \<Rightarrow> fst x),
                    (case a of [] \<Rightarrow> [] | x # _ \<Rightarrow> fst x))))"

section \<open>The reader's page list for a book\<close>

text \<open>
  The dataclass \<^verbatim>\<open>Book\<close>; \<open>book_id\<close>, \<open>book_title\<close> and \<open>book_author\<close> are its fields
  \<^verbatim>\<open>id\<close>, \<^verbatim>\<open>title\<close> and \<^verbatim>\<open>author\<close>. Paths are strings.
\<close>

record Book =
  book_id :: "int option"
  book_title :: string
  book_author :: string
  file_path :: "string option"
  cover_path :: "string option"
  is_favorite :: bool
  is_read :: bool
  tags :: string
  current_page :: int
  total_pages :: int

text \<open>
  \<^verbatim>\<open>get_pages_for_book\<close> is a closure of \<^verbatim>\<open>main\<close> over \<^verbatim>\<open>pages_cache\<close>,
  \<^verbatim>\<open>settings\<close> and the database connection. It changes the book and the cache, which
  are therefore passed in and returned with the page list. \<open>file_exists\<close> is
  \<^verbatim>\<open>Path.exists\<close>, and \<open>open_epub\<close> is what the constructor \<^verbatim>\<open>EpubBook(path)\<close> does
  on a path. The closing \<^verbatim>\<open>update_book_progress(conn, book)\<close> copies three fields of
  the book into the database and changes neither the book nor the cache; the database is
  not part of this state.
  \<open>cached_pages\<close> is the entry that the first test finds, if any.
  \<^verbatim>\<open>
  if book.id is not None and book.id in pages_cache:
      return pages_cache[book.id]
  if not book.file_path or not book.file_path.exists():
      pages = [ChapterPage(0, book.title or "(Sin titulo)", 1,
                           [{"type": "text", "text": "No se encuentra el archivo del libro."}])]
  else:
      try:
          eb = EpubBook(book.file_path)
          if not book.title and eb.title: book.title = eb.title
          if not book.author and eb.author: book.author = eb.author
          pages = paginate_book(eb, settings)
      except Exception as exc:
          pages = [ChapterPage(0, book.title or "(Sin titulo)", 1,
                               [{"type": "text", "text": f"Error al leer el EPUB:\n{exc}"}])]
  if book.id is not None:
      pages_cache[book.id] = pages
  book.total_pages = len(pages)
  if book.current_page >= book.total_pages:
      book.current_page = 0
  update_book_progress(conn, book)
  return pages
  \<close>
\<close>

definition title_or_default :: "Book \<Rightarrow> string" where
  "title_or_default book =
     (if book_title book \<noteq> [] then book_title book
      else ''(Sin t'' @ [CHR 0xED] @ ''tulo)'')"

definition compute_pages ::
  "(string \<Rightarrow> bool) \<Rightarrow> (string \<Rightarrow> exn + EpubBook) \<Rightarrow> Settings \<Rightarrow> Book
     \<Rightarrow> ChapterPage list \<times> Book" where
  "compute_pages file_exists open_epub settings book =
     (let missing = ([\<lparr>chapter_index = 0, chapter_title = title_or_default book,
                       page_in_chapter = 1,
                       blocks = [TextBlock ''No se encuentra el archivo del libro.'']\<rparr>], book)
      in case file_path book of
           None \<Rightarrow> missing
         | Some fp \<Rightarrow>
             if \<not> file_exists fp then missing
             else (case open_epub fp of
                     Inr eb \<Rightarrow>
                       (let book1 = (if book_title book = [] \<and> title eb \<noteq> []
                                     then book\<lparr>book_title := title eb\<rparr> else book);
                            book2 = (if book_author book1 = [] \<and> author eb \<noteq> []
                                     then book1\<lparr>book_author := author eb\<rparr> else book1)
                        in (paginate_book eb settings, book2))
                   | Inl exc \<Rightarrow>
                       ([\<lparr>chapter_index = 0, chapter_title = title_or_default book,
                          page_in_chapter = 1,
                          blocks = [TextBlock (''Error al leer el EPUB:'' @ [CHR 0x0A] @
                                               message exc)]\<rparr>],
                        book)))"

definition cached_pages :: "(int \<rightharpoonup> ChapterPage list) \<Rightarrow> Book \<Rightarrow> ChapterPage list option" where
  "cached_pages pages_cache book =
     (case book_id book of None \<Rightarrow> None | Some i \<Rightarrow> pages_cache i)"

definition get_pages_for_book ::
  "(string \<Rightarrow> bool) \<Rightarrow> (string \<Rightarrow> exn + EpubBook) \<Rightarrow> Settings
     \<Rightarrow> (int \<rightharpoonup> ChapterPage list) \<Rightarrow> Book
     \<Rightarrow> ChapterPage list \<times> Book \<times> (int \<rightharpoonup> ChapterPage list)" where
  "get_pages_for_book file_exists open_epub settings pages_cache book =
     (case cached_pages pages_cache book of
        Some cached \<Rightarrow> (cached, book, pages_cache)
      | None \<Rightarrow>
          (case compute_pages file_exists open_epub settings book of
             (pgs, book1) \<Rightarrow>
               (let cache1 = (case book_id book1 of
                                None \<Rightarrow> pages_cache
                              | Some i \<Rightarrow> pages_cache(i \<mapsto> pgs));
                    book2 = book1\<lparr>total_pages := int (length pgs)\<rparr>;
                    book3 = (if current_page book2 \<ge> total_pages book2
                             then book2\<lparr>current_page := 0\<rparr> else book2)
                in (pgs, book3, cache1))))"

section \<open>The reader's state and its event handlers\<close>

text \<open>
  \<^verbatim>\<open>get_pages_for_book\<close> is called by two closures of \<^verbatim>\<open>main\<close> only, \<^verbatim>\<open>show_page\<close> and
  \<^verbatim>\<open>handle_keyboard\<close>, on \<^verbatim>\<open>current_book\<close>, and the cache is local to \<^verbatim>\<open>main\<close>. The
  state that the closures share is the list \<^verbatim>\<open>books\<close>, \<^verbatim>\<open>pages_cache\<close>, \<^verbatim>\<open>settings\<close>,
  \<^verbatim>\<open>current_book\<close> and \<^verbatim>\<open>current_page_index\<close>. \<^verbatim>\<open>current_book\<close> and the book of a card
  or of a menu are objects of the list \<^verbatim>\<open>books\<close>; they are referred to by their
  identifier, the primary key of the table \<^verbatim>\<open>books\<close>, and a change of the object is
  \<open>update_book\<close> on the list. \<open>next_id\<close> is the counter of the column
  \<^verbatim>\<open>id INTEGER PRIMARY KEY AUTOINCREMENT\<close>: \<^verbatim>\<open>insert_book\<close> gives a new book
  \<^verbatim>\<open>cur.lastrowid\<close>, an identifier that no row has had before. The database is otherwise
  not part of the state: what a handler reads from it (\<^verbatim>\<open>load_last_read\<close>) is an argument
  of the handler, and so are the values of the controls and of the picked file. The file
  system may change between two events, so \<open>file_exists\<close> and \<open>open_epub\<close> are arguments of
  each handler as well. The widgets are not modelled.
\<close>

record reader =
  books :: "Book list"
  cache :: "int \<rightharpoonup> ChapterPage list"
  reader_settings :: Settings
  current_book :: "int option"
  current_page_index :: int
  next_id :: int

text \<open>
  \<open>book_with\<close> is the object of the list with a given identifier, and \<open>update_book\<close> a
  change of that object. A call \<^verbatim>\<open>get_pages_for_book(b)\<close> on the listed book with
  identifier \<open>i\<close>: the page list, and the state with the book and the cache as the call
  leaves them. (The open book is always a listed book, see \<open>current_book_listed\<close> below,
  so the first case of \<open>call_get_pages\<close> does not arise.)
\<close>

definition book_with :: "int \<Rightarrow> Book list \<Rightarrow> Book option" where
  "book_with i bs = find (\<lambda>b. book_id b = Some i) bs"

definition update_book :: "int \<Rightarrow> (Book \<Rightarrow> Book) \<Rightarrow> Book list \<Rightarrow> Book list" where
  "update_book i f bs = map (\<lambda>b. if book_id b = Some i then f b else b) bs"


definition call_get_pages ::
  "(string \<Rightarrow> bool) \<Rightarrow> (string \<Rightarrow> exn + EpubBook) \<Rightarrow> int \<Rightarrow> reader
     \<Rightarrow> ChapterPage list \<times> reader" where
  "call_get_pages fe oe i st =
     (case book_with i (books st) of
        None \<Rightarrow> ([], st)
      | Some b \<Rightarrow>
          (case get_pages_for_book fe oe (reader_settings st) (cache st) b of
             (pgs, b', c') \<Rightarrow>
               (pgs, st\<lparr>books := update_book i (\<lambda>_. b') (books st), cache := c'\<rparr>)))"

text \<open>
  \<^verbatim>\<open>
  def show_page():
      if current_book is None: return
      pages = get_pages_for_book(current_book)
      if not pages: return
      if current_page_index < 0: current_page_index = 0
      if current_page_index >= len(pages): current_page_index = len(pages) - 1
      current_book.current_page = current_page_index
      current_book.is_read = True
      current_book.total_pages = len(pages)
      update_book_progress(conn, current_book); save_last_read(conn, current_book)
      ...
  def on_slider_change(e):
      current_page_index = int(e.control.value); show_page()
  def handle_keyboard(e):
      if current_book is None: return
      if e.key in ("ArrowRight", "Arrow Right"):
          pages = get_pages_for_book(current_book)
          if current_page_index < len(pages) - 1:
              current_page_index += 1; show_page()
      elif e.key in ("ArrowLeft", "Arrow Left"):
          if current_page_index > 0:
              current_page_index -= 1; show_page()
  def apply_theme_to_reader():
      ...
      if current_book is not None: show_page()
  def save_settings_click(e):
      settings.font_size = ...; ...; apply_theme_to_reader()
  def open_reader(book):
      current_book = book; current_page_index = book.current_page
      ...
      apply_theme_to_reader(); show_page()
  \<close>
\<close>

definition show_page :: "(string \<Rightarrow> bool) \<Rightarrow> (string \<Rightarrow> exn + EpubBook) \<Rightarrow> reader \<Rightarrow> reader" where
  "show_page fe oe st =
     (case current_book st of
        None \<Rightarrow> st
      | Some i \<Rightarrow>
          (case call_get_pages fe oe i st of
             (pgs, st1) \<Rightarrow>
               if pgs = [] then st1
               else
                 (let idx1 = (if current_page_index st1 < 0 then 0 else current_page_index st1);
                      idx2 = (if idx1 \<ge> int (length pgs) then int (length pgs) - 1 else idx1)
                  in st1\<lparr>current_page_index := idx2,
                          books := update_book i
                            (\<lambda>b. b\<lparr>current_page := idx2, is_read := True,
                                    total_pages := int (length pgs)\<rparr>) (books st1)\<rparr>)))"

definition on_slider_change ::
  "(string \<Rightarrow> bool) \<Rightarrow> (string \<Rightarrow> exn + EpubBook) \<Rightarrow> int \<Rightarrow> reader \<Rightarrow> reader" where
  "on_slider_change fe oe v st = show_page fe oe (st\<lparr>current_page_index := v\<rparr>)"

datatype key = ArrowRight | ArrowLeft | OtherKey

definition handle_keyboard ::
  "(string \<Rightarrow> bool) \<Rightarrow> (string \<Rightarrow> exn + EpubBook) \<Rightarrow> key \<Rightarrow> reader \<Rightarrow> reader" where
  "handle_keyboard fe oe k st =
     (case current_book st of
        None \<Rightarrow> st
      | Some i \<Rightarrow>
          (case k of
             ArrowRight \<Rightarrow>
               (case call_get_pages fe oe i st of
                  (pgs, st1) \<Rightarrow>
                    if current_page_index st1 < int (length pgs) - 1
                    then show_page fe oe (st1\<lparr>current_page_index := current_page_index st1 + 1\<rparr>)
                    else st1)
           | ArrowLeft \<Rightarrow>
               if current_page_index st > 0
               then show_page fe oe (st\<lparr>current_page_index := current_page_index st - 1\<rparr>)
               else st
           | OtherKey \<Rightarrow> st))"

definition apply_theme_to_reader ::
  "(string \<Rightarrow> bool) \<Rightarrow> (string \<Rightarrow> exn + EpubBook) \<Rightarrow> reader \<Rightarrow> reader" where
  "apply_theme_to_reader fe oe st =
     (if current_book st \<noteq> None then show_page fe oe st else st)"

definition save_settings_click ::
  "(string \<Rightarrow> bool) \<Rightarrow> (string \<Rightarrow> exn + EpubBook) \<Rightarrow> Settings \<Rightarrow> reader \<Rightarrow> reader" where
  "save_settings_click fe oe s st = apply_theme_to_reader fe oe (st\<lparr>reader_settings := s\<rparr>)"

definition open_reader ::
  "(string \<Rightarrow> bool) \<Rightarrow> (string \<Rightarrow> exn + EpubBook) \<Rightarrow> int \<Rightarrow> reader \<Rightarrow> reader" where
  "open_reader fe oe i st =
     (case book_with i (books st) of
        None \<Rightarrow> st
      | Some b \<Rightarrow>
          show_page fe oe
            (apply_theme_to_reader fe oe
               (st\<lparr>current_book := Some i, current_page_index := current_page b\<rparr>)))"

text \<open>
  The handlers of a book's menu, of the button \<^verbatim>\<open>Continuar\<close> and of the file picker.
  \<^verbatim>\<open>
  def toggle_favorite(e): book.is_favorite = not book.is_favorite; ...
  def toggle_read(e):
      if book.is_read:
          book.is_read = False; book.current_page = 0
          book.total_pages = book.total_pages
      else: book.is_read = True
  def save_tags(ev): book.tags = tag_field.value.strip(); ...
  def do_delete(ev):
      if current_book is not None and current_book.id == book.id:
          current_book = None; current_page_index = 0
      delete_book(conn, book)
      if book in books: books.remove(book)
  def continuar_click(e):
      last_book_id, last_page = load_last_read(conn)
      target_book = None
      if last_book_id is not None:
          for b in books:
              if b.id == last_book_id:
                  target_book = b
                  if b.total_pages > 0: last_page = max(0, min(last_page, b.total_pages - 1))
                  else: last_page = max(0, last_page)
                  b.current_page = last_page
                  break
      if target_book is None:
          if books:
              read_books = [b for b in books if b.is_read]
              target_book = read_books[0] if read_books else books[0]
          else: ...; return
      open_reader(target_book)
  def on_file_picked(e):
      ...
      title, author = get_epub_metadata(path)
      cover_path = extract_cover_image(path)
      new_book = Book(title=title, author=author, file_path=path, cover_path=cover_path)
      new_book = insert_book(conn, new_book)
      books.append(new_book)
  \<close>
\<close>

definition toggle_favorite :: "int \<Rightarrow> reader \<Rightarrow> reader" where
  "toggle_favorite i st =
     st\<lparr>books := update_book i (\<lambda>b. b\<lparr>is_favorite := \<not> is_favorite b\<rparr>) (books st)\<rparr>"

definition toggle_read :: "int \<Rightarrow> reader \<Rightarrow> reader" where
  "toggle_read i st =
     st\<lparr>books := update_book i
            (\<lambda>b. if is_read b then b\<lparr>is_read := False, current_page := 0\<rparr>
                  else b\<lparr>is_read := True\<rparr>) (books st)\<rparr>"

definition save_tags :: "int \<Rightarrow> string \<Rightarrow> reader \<Rightarrow> reader" where
  "save_tags i v st = st\<lparr>books := update_book i (\<lambda>b. b\<lparr>tags := py_strip v\<rparr>) (books st)\<rparr>"

definition do_delete :: "int \<Rightarrow> reader \<Rightarrow> reader" where
  "do_delete i st =
     (let st1 = (if current_book st = Some i
                 then st\<lparr>current_book := None, current_page_index := 0\<rparr> else st)
      in st1\<lparr>books := filter (\<lambda>b. book_id b \<noteq> Some i) (books st1)\<rparr>)"

definition continuar_click ::
  "(string \<Rightarrow> bool) \<Rightarrow> (string \<Rightarrow> exn + EpubBook) \<Rightarrow> int option \<Rightarrow> int \<Rightarrow> reader \<Rightarrow> reader" where
  "continuar_click fe oe last_book_id last_page st =
     (case (case last_book_id of
              None \<Rightarrow> None
            | Some i \<Rightarrow> (case book_with i (books st) of None \<Rightarrow> None | Some b \<Rightarrow> Some (i, b))) of
        Some (i, b) \<Rightarrow>
          (let last_page1 = (if total_pages b > 0
                             then max 0 (min last_page (total_pages b - 1))
                             else max 0 last_page)
           in open_reader fe oe i
                (st\<lparr>books := update_book i (\<lambda>b. b\<lparr>current_page := last_page1\<rparr>) (books st)\<rparr>))
      | None \<Rightarrow>
          (case books st of
             [] \<Rightarrow> st
           | b0 # _ \<Rightarrow>
               (let read_books = filter is_read (books st);
                    target_book = (if read_books \<noteq> [] then hd read_books else b0)
                in case book_id target_book of
                     None \<Rightarrow> st
                   | Some j \<Rightarrow> open_reader fe oe j st)))"

definition on_file_picked ::
  "string \<Rightarrow> string \<Rightarrow> string \<Rightarrow> string option \<Rightarrow> reader \<Rightarrow> reader" where
  "on_file_picked t a path cover st =
     (let new_book = \<lparr>book_id = Some (next_id st), book_title = t, book_author = a,
                      file_path = Some path, cover_path = cover, is_favorite = False,
                      is_read = False, tags = [], current_page = 0, total_pages = 0\<rparr>
      in st\<lparr>books := books st @ [new_book], next_id := next_id st + 1\<rparr>)"

text \<open>
  The events of the user interface, and the states that the reader can be in: \<^verbatim>\<open>main\<close>
  starts with the books of the database (\<^verbatim>\<open>load_books\<close>: every book has its row's
  identifier), an empty cache and no open book, and then handles events.
\<close>

datatype event =
    SliderChange int
  | Keyboard key
  | SaveSettings Settings
  | OpenReader int
  | ToggleFavorite int
  | ToggleRead int
  | SaveTags int string
  | Delete int
  | Continuar "int option" int
  | FilePicked string string string "string option"

fun handle :: "(string \<Rightarrow> bool) \<Rightarrow> (string \<Rightarrow> exn + EpubBook) \<Rightarrow> event \<Rightarrow> reader \<Rightarrow> reader" where
  "handle fe oe (SliderChange v) st = on_slider_change fe oe v st"
| "handle fe oe (Keyboard k) st = handle_keyboard fe oe k st"
| "handle fe oe (SaveSettings s) st = save_settings_click fe oe s st"
| "handle fe oe (OpenReader i) st = open_reader fe oe i st"
| "handle fe oe (ToggleFavorite i) st = toggle_favorite i st"
| "handle fe oe (ToggleRead i) st = toggle_read i st"
| "handle fe oe (SaveTags i v) st = save_tags i v st"
| "handle fe oe (Delete i) st = do_delete i st"
| "handle fe oe (Continuar last_book_id last_page) st = continuar_click fe oe last_book_id last_page st"
| "handle fe oe (FilePicked t a path cover) st = on_file_picked t a path cover st"

definition has_id_below :: "int \<Rightarrow> Book \<Rightarrow> bool" where
  "has_id_below n b = (case book_id b of None \<Rightarrow> False | Some i \<Rightarrow> i < n)"

definition initial :: "reader \<Rightarrow> bool" where
  "initial st \<longleftrightarrow>
     cache st = Map.empty \<and> current_book st = None \<and> current_page_index st = 0 \<and>
     distinct (map book_id (books st)) \<and> list_all (has_id_below (next_id st)) (books st)"

inductive reachable :: "reader \<Rightarrow> bool" where
  start: "initial st \<Longrightarrow> reachable st"
| step: "reachable st \<Longrightarrow> reachable (handle fe oe ev st)"

section \<open>Notions used in the statements\<close>

text \<open>
  The cost that the loop body charges for a block: the local \<^verbatim>\<open>length\<close> of the text
  branch, the local \<^verbatim>\<open>img_cost\<close> of the image branch.
\<close>

definition block_cost :: "int \<Rightarrow> block \<Rightarrow> int" where
  "block_cost limit blk =
     (case blk of TextBlock t \<Rightarrow> int (length t) | ImageBlock d a \<Rightarrow> img_cost limit)"

text \<open>The test that guards \<^verbatim>\<open>flush_page()\<close> in both branches.\<close>

definition must_flush :: "int \<Rightarrow> pstate \<Rightarrow> block \<Rightarrow> bool" where
  "must_flush limit st blk \<longleftrightarrow>
     current_blocks st \<noteq> [] \<and> current_chars st + block_cost limit blk > limit"

text \<open>
  The cost rule in the words of the specification: a text block costs the length of its
  trimmed text, an image block the floor of 0.35 times the budget, with 0.35 the real
  number.
\<close>

definition spec_block_cost :: "int \<Rightarrow> block \<Rightarrow> int" where
  "spec_block_cost budget blk =
     (case blk of
        TextBlock t \<Rightarrow> int (length (py_strip t))
      | ImageBlock d a \<Rightarrow> \<lfloor>real_of_int budget * 0.35\<rfloor>)"

text \<open>The pages of chapter \<open>i\<close> in a page list, in the order of the list.\<close>

definition pages_of :: "nat \<Rightarrow> ChapterPage list \<Rightarrow> ChapterPage list" where
  "pages_of i pgs = filter (\<lambda>p. chapter_index p = i) pgs"

text \<open>
  The relation between the loop state before and after a run of blocks \<open>bs\<close> of chapter
  \<open>ci\<close>: pages were only appended; the appended pages followed by the buffer are the old
  buffer followed by \<open>bs\<close>; every appended page belongs to the chapter and is not empty;
  the appended pages are numbered on from the old counter.
\<close>

definition grows :: "nat \<Rightarrow> string \<Rightarrow> pstate \<Rightarrow> block list \<Rightarrow> pstate \<Rightarrow> bool" where
  "grows ci ct st bs st' \<longleftrightarrow>
     (\<exists>new. pages st' = pages st @ new \<and>
        concat (map blocks new) @ current_blocks st' = current_blocks st @ bs \<and>
        (\<forall>p \<in> set new. chapter_index p = ci \<and> chapter_title p = ct \<and> blocks p \<noteq> []) \<and>
        (\<forall>k < length new. page_in_chapter (new ! k) = page_counter st + int k) \<and>
        page_counter st' = page_counter st + int (length new))"

text \<open>What a chapter's pages must be: its blocks, its title, numbered from 1.\<close>

definition chapter_ok :: "chap \<Rightarrow> ChapterPage list \<Rightarrow> bool" where
  "chapter_ok ch ps \<longleftrightarrow>
     concat (map blocks ps) = cblocks ch \<and>
     (\<forall>p \<in> set ps. chapter_title p = ctitle ch) \<and>
     (\<forall>k < length ps. page_in_chapter (ps ! k) = 1 + int k)"

text \<open>
  A block list in which a block dearer than the budget has no company, and the loop
  invariant that goes with it: the running cost is the sum of the buffer's costs, and
  the buffer and every page are such lists.
\<close>

definition alone_ok :: "int \<Rightarrow> block list \<Rightarrow> bool" where
  "alone_ok limit bs \<longleftrightarrow> (\<forall>b \<in> set bs. block_cost limit b > limit \<longrightarrow> bs = [b])"

definition cost_inv :: "int \<Rightarrow> pstate \<Rightarrow> bool" where
  "cost_inv limit st \<longleftrightarrow>
     current_chars st = sum_list (map (block_cost limit) (current_blocks st)) \<and>
     alone_ok limit (current_blocks st) \<and>
     (\<forall>p \<in> set (pages st). alone_ok limit (blocks p))"

text \<open>
  The normalisation of an image reference in the words of the specification: the fragment
  suffix is stripped, a leading \<^verbatim>\<open>./\<close> is stripped, and \<^verbatim>\<open>../\<close> segments are collapsed.
  The path is split at \<^verbatim>\<open>/\<close>; a segment \<^verbatim>\<open>..\<close> takes back the segment before it (and is
  dropped when there is none); the remaining segments are joined again.
\<close>

fun split_on :: "char \<Rightarrow> string \<Rightarrow> string list" where
  "split_on c [] = [[]]"
| "split_on c (x # xs) =
     (if x = c then [] # split_on c xs
      else (case split_on c xs of
              y # ys \<Rightarrow> (x # y) # ys
            | [] \<Rightarrow> [[x]]))"

fun collapse :: "string list \<Rightarrow> string list \<Rightarrow> string list" where
  "collapse up [] = rev up"
| "collapse up (seg # segs) =
     (if seg = ''..'' then collapse (tl up) segs else collapse (seg # up) segs)"

definition spec_normalize_src :: "string \<Rightarrow> string" where
  "spec_normalize_src src =
     (let p = split_first CHR ''#'' src;
          p1 = (if take 2 p = ''./'' then drop 2 p else p)
      in join ''/'' (collapse [] (split_on CHR ''/'' p1)))"

text \<open>A path in which \<^verbatim>\<open>../\<close> does not occur.\<close>

fun no_dotdot :: "string \<Rightarrow> bool" where
  "no_dotdot [] = True"
| "no_dotdot (x # xs) = (take 3 (x # xs) \<noteq> ''../'' \<and> no_dotdot xs)"

text \<open>
  The nodes of a list of children with everything below them, in document order (the
  \<open>descendants\<close> of a tag are the \<open>nodes_of\<close> its children); a list of string nodes; and
  the content of an element that holds neither a text element of the loader nor an image.
\<close>

definition nodes_of :: "node list \<Rightarrow> node list" where
  "nodes_of cs = concat (map (\<lambda>c. c # descendants c) cs)"

definition strings_only :: "node list \<Rightarrow> bool" where
  "strings_only w = list_all (\<lambda>e. node_name e = None) w"

definition inline_only :: "node list \<Rightarrow> bool" where
  "inline_only cs =
     list_all (\<lambda>e. \<not> has_name [''p'', ''h1'', ''h2'', ''h3'', ''li'', ''img''] e) (nodes_of cs)"

text \<open>
  What the cache and the books have in common between two events: every listed book has an
  identifier below the counter, and a book whose pages are in the cache has their number as
  its \<open>total_pages\<close> and, when there is a page, a position before the end. Every key of the
  cache is below the counter.
\<close>

definition book_ok :: "(int \<rightharpoonup> ChapterPage list) \<Rightarrow> int \<Rightarrow> Book \<Rightarrow> bool" where
  "book_ok c n b =
     (case book_id b of
        None \<Rightarrow> False
      | Some i \<Rightarrow>
          i < n \<and>
          (case c i of
             None \<Rightarrow> True
           | Some cached \<Rightarrow>
               total_pages b = int (length cached) \<and>
               (cached \<noteq> [] \<longrightarrow> current_page b < int (length cached))))"

definition cache_ok :: "reader \<Rightarrow> bool" where
  "cache_ok st \<longleftrightarrow>
     (\<forall>b \<in> set (books st). book_ok (cache st) (next_id st) b) \<and>
     (\<forall>i \<in> dom (cache st). i < next_id st)"

text \<open>The open book is one of the listed books.\<close>

definition open_ok :: "reader \<Rightarrow> bool" where
  "open_ok st \<longleftrightarrow> (case current_book st of None \<Rightarrow> True | Some i \<Rightarrow> book_with i (books st) \<noteq> None)"

section \<open>Concrete inputs\<close>

text \<open>A small book for the concrete instances: three chapters, the second without blocks.\<close>

definition chs0 :: "chap list" where
  "chs0 = [\<lparr>ctitle = ''A'', cblocks = [TextBlock ''ab'', ImageBlock ''QQ=='' ''pic'']\<rparr>,
           \<lparr>ctitle = ''B'', cblocks = []\<rparr>,
           \<lparr>ctitle = ''C'', cblocks = [TextBlock ''xyz'']\<rparr>]"



definition book0 :: Book where
  "book0 = \<lparr>book_id = Some 1, book_title = ''Libro'', book_author = [], file_path = None,
            cover_path = None, is_favorite = False, is_read = False, tags = [],
            current_page = 5, total_pages = 0\<rparr>"


definition pkg_absent :: package where
  "pkg_absent = \<lparr>dc_title = [], dc_creator = [], get_items = []\<rparr>"

definition pkg_present :: package where
  "pkg_present = \<lparr>dc_title = [(''Rayuela'', [])], dc_creator = [(''Cortazar'', [])],
                  get_items = []\<rparr>"

text \<open>
  Two documents as the package library delivers them, an \<^verbatim>\<open>html\<close> element with a
  \<^verbatim>\<open>head\<close> and a \<^verbatim>\<open>body\<close>: a heading and two paragraphs in the body; and the same
  with the declaration, the line breaks of the serialisation, and inline markup in the
  heading and in a paragraph. A resource map and a body with an image that is not in it.
\<close>

definition doc0 :: node where
  "doc0 = Tag ''[document]'' []
     [Tag ''html'' []
        [Tag ''head'' [] [Tag ''title'' [] [NavigableString ''Cap 1'']],
         Tag ''body'' []
           [Tag ''h2'' [] [NavigableString ''Intro''],
            Tag ''p'' [] [NavigableString ''Uno''],
            Tag ''p'' [] [NavigableString ''Dos'']]]]"

definition head1 :: node where
  "head1 = Tag ''head'' []
     [NavigableString (CHR 0x0A # ''    ''),
      Tag ''title'' [] [NavigableString ''Cap 1''],
      NavigableString (CHR 0x0A # ''  '')]"

definition bd1 :: node where
  "bd1 = Tag ''body'' []
     [Tag ''h2'' [] [NavigableString ''Hello '', Tag ''b'' [] [NavigableString ''World'']],
      NavigableString [CHR 0x0A],
      Tag ''p'' [] [NavigableString ''Uno''],
      NavigableString [CHR 0x0A],
      Tag ''p'' [] [NavigableString ''Dos '', Tag ''i'' [] [NavigableString ''tres'']],
      NavigableString [CHR 0x0A]]"

definition html1 :: node where
  "html1 = Tag ''html'' [(''xmlns'', ''http://www.w3.org/1999/xhtml'')]
     [NavigableString (CHR 0x0A # ''  ''), head1, NavigableString (CHR 0x0A # ''  ''), bd1,
      NavigableString [CHR 0x0A]]"

definition doc2 :: node where
  "doc2 = Tag ''[document]'' []
     [OtherString ''xml version='1.0' encoding='utf-8'?'', NavigableString [CHR 0x0A],
      OtherString ''html'', NavigableString [CHR 0x0A], html1, NavigableString [CHR 0x0A]]"

definition images0 :: "(string \<times> string) list" where
  "images0 = [(''cover.jpg'', ''CCC''), (''OEBPS/img/a.png'', ''AAA''),
              (''OEBPS/other/a.png'', ''BBB'')]"

definition bd0 :: node where
  "bd0 = Tag ''body'' []
     [Tag ''p'' [] [NavigableString ''Uno''],
      Tag ''img'' [(''src'', ''missing.png'')] [],
      Tag ''p'' [] [NavigableString ''Dos'']]"



definition book1 :: Book where
  "book1 = book0\<lparr>is_read := True, current_page := 0, total_pages := 1\<rparr>"


section \<open>The loop body in one equation\<close>

lemma add_block_eq:
  "add_block limit ci ct st blk =
     (let st1 = (if must_flush limit st blk then flush_page ci ct st else st)
      in st1\<lparr>current_blocks := current_blocks st1 @ [blk],
              current_chars := current_chars st1 + block_cost limit blk\<rparr>)"
  by (cases blk) (simp_all add: block_cost_def must_flush_def Let_def)

lemma add_block_flush:
  "must_flush limit st blk \<Longrightarrow>
   add_block limit ci ct st blk =
     st\<lparr>pages := pages st @ [\<lparr>chapter_index = ci, chapter_title = ct,
                                 page_in_chapter = page_counter st, blocks = current_blocks st\<rparr>],
        page_counter := page_counter st + 1,
        current_blocks := [blk],
        current_chars := block_cost limit blk\<rparr>"
  by (simp add: add_block_eq flush_page_def must_flush_def)

lemma add_block_keep:
  "\<not> must_flush limit st blk \<Longrightarrow>
   add_block limit ci ct st blk =
     st\<lparr>current_blocks := current_blocks st @ [blk],
        current_chars := current_chars st + block_cost limit blk\<rparr>"
  by (simp add: add_block_eq)

lemma grows_refl: "grows ci ct st [] st"
  by (simp add: grows_def)

lemma grows_trans:
  assumes "grows ci ct st bs1 st1" and "grows ci ct st1 bs2 st2"
  shows "grows ci ct st (bs1 @ bs2) st2"
proof -
  from assms(1) obtain n1 where n1:
    "pages st1 = pages st @ n1"
    "concat (map blocks n1) @ current_blocks st1 = current_blocks st @ bs1"
    "\<forall>p \<in> set n1. chapter_index p = ci \<and> chapter_title p = ct \<and> blocks p \<noteq> []"
    "\<forall>k < length n1. page_in_chapter (n1 ! k) = page_counter st + int k"
    "page_counter st1 = page_counter st + int (length n1)"
    unfolding grows_def by blast
  from assms(2) obtain n2 where n2:
    "pages st2 = pages st1 @ n2"
    "concat (map blocks n2) @ current_blocks st2 = current_blocks st1 @ bs2"
    "\<forall>p \<in> set n2. chapter_index p = ci \<and> chapter_title p = ct \<and> blocks p \<noteq> []"
    "\<forall>k < length n2. page_in_chapter (n2 ! k) = page_counter st1 + int k"
    "page_counter st2 = page_counter st1 + int (length n2)"
    unfolding grows_def by blast
  have a: "pages st2 = pages st @ (n1 @ n2)"
    using n1(1) n2(1) by simp
  have "concat (map blocks (n1 @ n2)) @ current_blocks st2
      = concat (map blocks n1) @ (concat (map blocks n2) @ current_blocks st2)"
    by simp
  also have "\<dots> = concat (map blocks n1) @ current_blocks st1 @ bs2"
    using n2(2) by simp
  also have "\<dots> = current_blocks st @ bs1 @ bs2"
    using n1(2) by (metis append.assoc)
  finally have b: "concat (map blocks (n1 @ n2)) @ current_blocks st2 = current_blocks st @ bs1 @ bs2" .
  have c: "\<forall>p \<in> set (n1 @ n2). chapter_index p = ci \<and> chapter_title p = ct \<and> blocks p \<noteq> []"
    using n1(3) n2(3) by auto
  have d: "\<forall>k < length (n1 @ n2). page_in_chapter ((n1 @ n2) ! k) = page_counter st + int k"
  proof (intro allI impI)
    fix k assume k: "k < length (n1 @ n2)"
    show "page_in_chapter ((n1 @ n2) ! k) = page_counter st + int k"
    proof (cases "k < length n1")
      case True
      then show ?thesis using n1(4) by (simp add: nth_append)
    next
      case False
      then have "k - length n1 < length n2" using k by simp
      then have "page_in_chapter (n2 ! (k - length n1)) = page_counter st1 + int (k - length n1)"
        using n2(4) by blast
      then show ?thesis using False n1(5) by (simp add: nth_append)
    qed
  qed
  have e: "page_counter st2 = page_counter st + int (length (n1 @ n2))"
    using n1(5) n2(5) by simp
  show ?thesis
    unfolding grows_def using a b c d e by blast
qed

lemma grows_flush: "grows ci ct st [] (flush_page ci ct st)"
proof (cases "current_blocks st = []")
  case True
  then show ?thesis by (simp add: flush_page_def grows_def)
next
  case False
  let ?p = "\<lparr>chapter_index = ci, chapter_title = ct,
             page_in_chapter = page_counter st, blocks = current_blocks st\<rparr>"
  have "pages (flush_page ci ct st) = pages st @ [?p]"
    and "current_blocks (flush_page ci ct st) = []"
    and "page_counter (flush_page ci ct st) = page_counter st + 1"
    using False by (simp_all add: flush_page_def)
  then show ?thesis
    unfolding grows_def using False
    by (intro exI [of _ "[?p]"]) simp
qed

lemma grows_append:
  "grows ci ct st [blk] (st\<lparr>current_blocks := current_blocks st @ [blk], current_chars := c\<rparr>)"
  by (simp add: grows_def)

lemma grows_add_block: "grows ci ct st [blk] (add_block limit ci ct st blk)"
proof -
  let ?st1 = "if must_flush limit st blk then flush_page ci ct st else st"
  have 1: "grows ci ct st [] ?st1"
    by (simp add: grows_flush grows_refl)
  have 2: "grows ci ct ?st1 [blk] (add_block limit ci ct st blk)"
    unfolding add_block_eq Let_def by (rule grows_append)
  from grows_trans [OF 1 2] show ?thesis by simp
qed

lemma grows_foldl: "grows ci ct st bs (foldl (add_block limit ci ct) st bs)"
proof (induction bs arbitrary: st)
  case Nil
  show ?case by (simp add: grows_refl)
next
  case (Cons b bs)
  from grows_trans [OF grows_add_block Cons.IH]
  show ?case by simp
qed


lemma current_blocks_flush [simp]: "current_blocks (flush_page ci ct st) = []"
  by (simp add: flush_page_def)

lemma paginate_chapter_spec:
  "\<exists>new. paginate_chapter limit pgs (ci, ch) = pgs @ new \<and>
     concat (map blocks new) = cblocks ch \<and>
     (\<forall>p \<in> set new. chapter_index p = ci \<and> chapter_title p = ctitle ch \<and> blocks p \<noteq> []) \<and>
     (\<forall>k < length new. page_in_chapter (new ! k) = 1 + int k)"
proof -
  let ?st0 = "\<lparr>pages = pgs, current_blocks = [], current_chars = 0, page_counter = 1\<rparr>"
  let ?st1 = "foldl (add_block limit ci (ctitle ch)) ?st0 (cblocks ch)"
  let ?st2 = "flush_page ci (ctitle ch) ?st1"
  have "grows ci (ctitle ch) ?st0 (cblocks ch @ []) ?st2"
    by (rule grows_trans [OF grows_foldl grows_flush])
  then obtain new where
    "pages ?st2 = pages ?st0 @ new"
    "concat (map blocks new) @ current_blocks ?st2 = current_blocks ?st0 @ cblocks ch @ []"
    "\<forall>p \<in> set new. chapter_index p = ci \<and> chapter_title p = ctitle ch \<and> blocks p \<noteq> []"
    "\<forall>k < length new. page_in_chapter (new ! k) = page_counter ?st0 + int k"
    unfolding grows_def by blast
  then show ?thesis
    by (intro exI [of _ new]) (simp add: paginate_chapter_def)
qed

lemma paginate_chapters_Nil [simp]: "paginate_chapters limit [] = []"
  by (simp add: paginate_chapters_def)

lemma paginate_chapters_snoc:
  "paginate_chapters limit (chs @ [ch]) =
     paginate_chapter limit (paginate_chapters limit chs) (length chs, ch)"
  by (simp add: paginate_chapters_def enumerate_append_eq)

lemma paginate_chapters_inv:
  "(\<forall>p \<in> set (paginate_chapters limit chs). chapter_index p < length chs \<and> blocks p \<noteq> []) \<and>
   (\<forall>i < length chs. chapter_ok (chs ! i) (pages_of i (paginate_chapters limit chs)))"
proof (induction chs rule: rev_induct)
  case Nil
  show ?case by simp
next
  case (snoc ch chs)
  let ?P = "paginate_chapters limit chs"
  obtain new where new:
    "paginate_chapters limit (chs @ [ch]) = ?P @ new"
    "concat (map blocks new) = cblocks ch"
    "\<forall>p \<in> set new. chapter_index p = length chs \<and> chapter_title p = ctitle ch \<and> blocks p \<noteq> []"
    "\<forall>k < length new. page_in_chapter (new ! k) = 1 + int k"
    using paginate_chapter_spec [of limit ?P "length chs" ch]
    unfolding paginate_chapters_snoc by blast
  have old: "\<forall>p \<in> set ?P. chapter_index p < length chs \<and> blocks p \<noteq> []"
    using snoc.IH by blast
  have part1: "\<forall>p \<in> set (?P @ new). chapter_index p < length (chs @ [ch]) \<and> blocks p \<noteq> []"
    using old new(3) by auto
  have f_new: "pages_of (length chs) new = new"
    using new(3) by (simp add: pages_of_def)
  have f_old: "pages_of (length chs) ?P = []"
    using old by (auto simp: pages_of_def filter_empty_conv)
  have f_new_lt: "pages_of i new = []" if "i < length chs" for i
    using new(3) that by (auto simp: pages_of_def filter_empty_conv)
  have part2: "chapter_ok ((chs @ [ch]) ! i) (pages_of i (?P @ new))"
    if i: "i < length (chs @ [ch])" for i
  proof (cases "i < length chs")
    case True
    then have "pages_of i (?P @ new) = pages_of i ?P"
      using f_new_lt [OF True] by (simp add: pages_of_def)
    moreover have "chapter_ok (chs ! i) (pages_of i ?P)"
      using snoc.IH True by blast
    ultimately show ?thesis using True by (simp add: nth_append)
  next
    case False
    then have eq: "i = length chs" using i by simp
    have "pages_of i (?P @ new) = new"
      using f_old f_new unfolding eq by (simp add: pages_of_def)
    moreover have "chapter_ok ch new"
      using new(2,3,4) by (simp add: chapter_ok_def)
    ultimately show ?thesis using eq by simp
  qed
  show ?case
    unfolding new(1) using part1 part2 by blast
qed

lemma numbered_from_1:
  assumes "\<forall>k < length ps. page_in_chapter (ps ! k) = 1 + int k"
  shows "map page_in_chapter ps = [1..int (length ps)]"
proof (rule nth_equalityI)
  show "length (map page_in_chapter ps) = length [1..int (length ps)]"
    by simp
next
  fix k assume "k < length (map page_in_chapter ps)"
  then have k: "k < length ps" by simp
  then have "[1..int (length ps)] ! k = 1 + int k"
    by (intro nth_upto) simp
  then show "map page_in_chapter ps ! k = [1..int (length ps)] ! k"
    using assms k by simp
qed

lemma sorted_numbered:
  assumes "\<forall>k < length ps. page_in_chapter (ps ! k) = 1 + int k"
  shows "sort_key page_in_chapter ps = ps"
proof -
  have "sorted (map page_in_chapter ps)"
    unfolding numbered_from_1 [OF assms] by simp
  then show ?thesis by (rule sort_key_id_if_sorted)
qed


section \<open>Truncated double-precision division is integer division\<close>

lemma bit_length_upper: "n < 2 ^ bit_length n"
proof (induction n rule: bit_length.induct)
  case (1 n)
  show ?case
  proof (cases "n = 0")
    case True
    then show ?thesis by (simp add: bit_length.simps)
  next
    case False
    then have "n div 2 < 2 ^ bit_length (n div 2)" using 1 by simp
    then have "n < 2 * 2 ^ bit_length (n div 2)" by linarith
    then show ?thesis using False by (subst bit_length.simps) simp
  qed
qed

lemma bit_length_lower: "0 < n \<Longrightarrow> 2 ^ (bit_length n - 1) \<le> n"
proof (induction n rule: bit_length.induct)
  case (1 n)
  show ?case
  proof (cases "n div 2 = 0")
    case True
    then have "bit_length n = 1"
      using 1(2) by (subst bit_length.simps) (simp add: bit_length.simps)
    then show ?thesis using 1(2) by simp
  next
    case False
    then have IH: "2 ^ (bit_length (n div 2) - 1) \<le> n div 2" using 1 by simp
    have pos: "0 < bit_length (n div 2)"
      using False by (subst bit_length.simps) simp
    have "bit_length n = bit_length (n div 2) + 1"
      using 1(2) by (subst bit_length.simps) simp
    then have "2 ^ (bit_length n - 1) = 2 * 2 ^ (bit_length (n div 2) - 1)"
      using pos by (cases "bit_length (n div 2)") simp_all
    also have "\<dots> \<le> 2 * (n div 2)" using IH by simp
    also have "\<dots> \<le> n" by simp
    finally show ?thesis .
  qed
qed

lemma bit_length_gt: "2 ^ j \<le> n \<Longrightarrow> j < bit_length n"
proof -
  assume "2 ^ j \<le> n"
  then have "(2::nat) ^ j < 2 ^ bit_length n"
    using bit_length_upper [of n] by linarith
  then show ?thesis by simp
qed

lemma round_53_cases:
  assumes "53 < bit_length s"
  defines "B \<equiv> 2 ^ (bit_length s - 53)"
  shows "round_to_53_bits s sticky = (s div B) * B \<or>
         (round_to_53_bits s sticky = (s div B + 1) * B \<and> B \<le> 2 * (s mod B))"
proof -
  have B2: "B = 2 * 2 ^ (bit_length s - 53 - 1)"
    unfolding B_def using assms(1) by (cases "bit_length s - 53") simp_all
  show ?thesis
    using assms(1) unfolding round_to_53_bits_def Let_def B_def [symmetric]
    by (auto simp: B2 [symmetric]) (simp_all add: B2)
qed

lemma double_div_trunc_exact:
  assumes n: "n < 2 ^ 53" and d: "0 < d"
  shows "double_div_trunc n d = n div d"
proof (cases "n = 0")
  case True
  then show ?thesis
    by (simp add: double_div_trunc_def round_to_53_bits_def bit_length.simps [of 0])
next
  case False
  define P :: nat where "P = 2 ^ 52"
  have P53: "(2::nat) ^ 53 = 2 * P" by (simp add: P_def)
  have Ppos: "0 < P" by (simp add: P_def)
  have n': "n < 2 * P" using n unfolding P53 .
  define K :: nat where "K = 2 ^ (53 + bit_length d)"
  define s where "s = (n * K) div d"
  define Q where "Q = n div d"
  define R where "R = n mod d"
  define t where "t = (R * K) div d"
  have K_eq: "K = 2 * P * 2 ^ bit_length d" by (simp only: K_def power_add P53)
  have Kpos: "0 < K" using Ppos by (simp add: K_eq)
  have nQR: "n = Q * d + R" and Rd: "R < d"
    using d by (simp_all add: Q_def R_def)
  have "(2 * P) * d \<le> K"
    using bit_length_upper [of d] by (simp add: K_eq)
  moreover have "K \<le> n * K" using False by simp
  ultimately have "(2 * P) * d \<le> n * K" by (rule le_trans)
  then have "((2 * P) * d) div d \<le> (n * K) div d" by (rule div_le_mono)
  then have s2P: "2 * P \<le> s"
    unfolding s_def using d by simp
  then have "2 ^ 53 \<le> s" unfolding P53 .
  then have bl: "53 < bit_length s" by (rule bit_length_gt)
  define B :: nat where "B = 2 ^ (bit_length s - 53)"
  have Bpos: "0 < B" by (simp add: B_def)
  have spos: "0 < s" using s2P Ppos by linarith
  have e: "bit_length s - 1 = (bit_length s - 53) + 52" using bl by simp
  have "2 ^ (bit_length s - 1) = B * P"
    by (simp only: e power_add B_def P_def)
  moreover have "2 ^ (bit_length s - 1) \<le> s"
    using spos by (rule bit_length_lower)
  ultimately have "B * P \<le> s" by simp
  then have "B * P * d \<le> s * d" by simp
  also have "s * d \<le> n * K" unfolding s_def by simp
  also have "n * K < (2 * P) * K" using n' Kpos by simp
  finally have "(d * B) * P < (2 * K) * P" by (simp add: mult_ac)
  then have dB: "d * B < 2 * K" by (simp only: mult_less_cancel2)
  have "B \<le> d * B" using d by simp
  then have "B < 2 * K" using dB by (rule le_less_trans)
  moreover have "2 * K = 2 ^ (Suc (53 + bit_length d))" by (simp only: K_def power_Suc)
  ultimately have "(2::nat) ^ (bit_length s - 53) < 2 ^ (Suc (53 + bit_length d))"
    by (simp only: B_def)
  then have "bit_length s - 53 < Suc (53 + bit_length d)"
    by (rule power_less_imp_less_exp [rotated]) simp
  then have "bit_length s - 53 \<le> 53 + bit_length d" by simp
  then have BK: "B dvd K" unfolding B_def K_def by (rule le_imp_power_dvd)
  then obtain c where c: "K = B * c" by (auto simp: dvd_def)
  have s_eq: "s = Q * K + t"
  proof -
    have "n * K = R * K + Q * K * d" by (simp add: nQR algebra_simps)
    then show ?thesis
      unfolding s_def t_def using d by simp
  qed
  have "R * K < K * d" using Rd Kpos by simp
  then have tK: "t < K"
    unfolding t_def by (rule less_mult_imp_div_less)
  obtain d' where d': "d = Suc d'" using d by (cases d) simp_all
  have "t * d \<le> R * K" unfolding t_def by simp
  also have "R * K \<le> d' * K" using Rd d' by simp
  finally have "t * d + K \<le> d * K" using d' by simp
  then have "(2 * t) * d + 2 * K \<le> (2 * K) * d" by (simp add: mult_ac)
  then have "(2 * t) * d + d * B < (2 * K) * d" using dB by linarith
  then have "(2 * t + B) * d < (2 * K) * d" by (simp add: algebra_simps)
  then have tB: "2 * t + B < 2 * K" by (simp only: mult_less_cancel2)
  have sdiv: "s div B = Q * c + t div B"
  proof -
    have "s = t + (Q * c) * B" by (simp add: s_eq c mult_ac)
    then show ?thesis using Bpos by simp
  qed
  have smod: "s mod B = t mod B"
  proof -
    have "s = t + (Q * c) * B" by (simp add: s_eq c mult_ac)
    then show ?thesis by simp
  qed
  have low: "(t div B) * B \<le> t" by simp
  have res: "round_to_53_bits s sticky div K = Q" for sticky
  proof -
    from round_53_cases [OF bl, of sticky]
    consider "round_to_53_bits s sticky = (s div B) * B"
      | "round_to_53_bits s sticky = (s div B + 1) * B" "B \<le> 2 * (s mod B)"
      unfolding B_def by blast
    then show ?thesis
    proof cases
      case 1
      have "round_to_53_bits s sticky = (t div B) * B + Q * K"
        unfolding 1 sdiv c by (simp add: algebra_simps)
      moreover have "(t div B) * B < K" using low tK by (rule le_less_trans)
      ultimately show ?thesis using Kpos by simp
    next
      case 2
      have e: "round_to_53_bits s sticky = ((t div B) * B + B) + Q * K"
        unfolding 2 sdiv c by (simp add: algebra_simps)
      define u v where "u = (t div B) * B" and "v = t mod B"
      have tuv: "t = u + v" by (simp add: u_def v_def)
      have "B \<le> 2 * v" using 2(2) smod by (simp add: v_def)
      then have "2 * (u + B) \<le> 2 * (u + v) + B" by simp
      then have "2 * (u + B) \<le> 2 * t + B" by (simp only: tuv)
      then have "2 * (u + B) < 2 * K" using tB by (rule le_less_trans)
      then have "u + B < K" by simp
      then have "(t div B) * B + B < K" by (simp add: u_def)
      then show ?thesis using e Kpos by simp
    qed
  qed
  show ?thesis
    unfolding double_div_trunc_def Let_def K_def [symmetric] s_def [symmetric]
    by (simp add: res Q_def)
qed


lemma chars_per_page_eq: "chars_per_page fs = max 800 (57600 div max 10 fs)"
proof -
  have "double_div_trunc 57600 (nat (max 10 fs)) = 57600 div nat (max 10 fs)"
    by (rule double_div_trunc_exact) simp_all
  moreover have "int (57600 div nat (max 10 fs)) = 57600 div max 10 fs"
    by (simp add: zdiv_int)
  ultimately show ?thesis
    by (simp add: chars_per_page_def)
qed

section \<open>Evaluation on concrete inputs\<close>

lemmas paginate_eval =
  paginate_chapters_def paginate_chapter_def flush_page_def add_block_eq must_flush_def
  block_cost_def Let_def enumerate_eq_zip


lemma bit_length_0: "bit_length 0 = 0" by (simp add: bit_length.simps)
lemma bit_length_1: "bit_length (Suc 0) = 1" by (simp add: bit_length.simps)
lemma bit_length_Bit0: "bit_length (numeral (Num.Bit0 n)) = bit_length (numeral n) + 1"
  by (subst bit_length.simps) (simp add: numeral_Bit0_div_2)
lemma bit_length_Bit1: "bit_length (numeral (Num.Bit1 n)) = bit_length (numeral n) + 1"
  by (subst bit_length.simps) (simp add: numeral_Bit1_div_2)

lemmas img_cost_eval =
  img_cost_def round_to_53_bits_def double_0_35_num_def Let_def
  bit_length_0 bit_length_1 bit_length_Bit0 bit_length_Bit1

lemma img_cost_1: "img_cost 1 = 0"
  by (simp add: img_cost_eval)

lemma paginate_chs0: "paginate_chapters 1 chs0 =
  [\<lparr>chapter_index = 0, chapter_title = ''A'', page_in_chapter = 1, blocks = [TextBlock ''ab'']\<rparr>,
   \<lparr>chapter_index = 0, chapter_title = ''A'', page_in_chapter = 2, blocks = [ImageBlock ''QQ=='' ''pic'']\<rparr>,
   \<lparr>chapter_index = 2, chapter_title = ''C'', page_in_chapter = 1, blocks = [TextBlock ''xyz'']\<rparr>]"
  by (simp add: paginate_eval chs0_def img_cost_1)

lemma paginate_book_unfold:
  "paginate_book eb settings =
     paginate_chapters (chars_per_page (font_size settings)) (chapters eb)"
  by (simp add: paginate_book_def)

lemma pages_of_beyond:
  assumes "\<not> i < length chs"
  shows "pages_of i (paginate_chapters limit chs) = []"
  using paginate_chapters_inv [of limit chs] assms
  by (auto simp: pages_of_def filter_empty_conv)

lemma chapter_ok_pages_of:
  "i < length chs \<Longrightarrow> chapter_ok (chs ! i) (pages_of i (paginate_chapters limit chs))"
  using paginate_chapters_inv [of limit chs] by blast

lemma chars_per_page_72: "72 \<le> fs \<Longrightarrow> chars_per_page fs = 800"
proof -
  assume a: "72 \<le> fs"
  have "57600 div fs \<le> 57600 div 72"
    using a by (intro zdiv_mono2) simp_all
  then show ?thesis using a by (simp add: chars_per_page_eq max_def)
qed


section \<open>The budget\<close>

text \<open>
  C3. The code divides in double precision and truncates; all the same the budget is
  \<open>max 800 (floor (3200 * 18 / max 10 font_size))\<close> for every integer font size, with the
  division taken in the reals. It is never below 800; it is exactly 3200 at font size 18;
  and a larger font size never gives a larger budget (over all integers, so over 12 to
  30).
\<close>

theorem chars_per_page_budget:
  "chars_per_page fs = max 800 \<lfloor>(3200 * 18 :: real) / real_of_int (max 10 fs)\<rfloor> \<and>
   800 \<le> chars_per_page fs \<and>
   chars_per_page 18 = 3200 \<and>
   (a \<le> b \<longrightarrow> chars_per_page b \<le> chars_per_page a)"
proof (intro conjI impI)
  have "\<lfloor>real_of_int 57600 / real_of_int (max 10 fs)\<rfloor> = 57600 div max 10 fs"
    by (rule floor_divide_of_int_eq)
  then show "chars_per_page fs = max 800 \<lfloor>(3200 * 18 :: real) / real_of_int (max 10 fs)\<rfloor>"
    by (simp add: chars_per_page_eq)
next
  show "800 \<le> chars_per_page fs" by (simp add: chars_per_page_eq)
next
  show "chars_per_page 18 = 3200" by (simp add: chars_per_page_eq)
next
  assume "a \<le> b"
  then have "max 10 a \<le> max 10 b" by simp
  then have "57600 div max 10 b \<le> 57600 div max 10 a"
    by (intro zdiv_mono2) simp_all
  then show "chars_per_page b \<le> chars_per_page a"
    by (simp add: chars_per_page_eq)
qed

theorem chars_per_page_budget_witness:
  "(12::int) \<le> 30 \<and> chars_per_page 30 \<le> chars_per_page 12 \<and>
   chars_per_page 12 = 4800 \<and> chars_per_page 30 = 1920"
  using chars_per_page_budget [of 12 12 30] by (simp add: chars_per_page_eq)


section \<open>Pages of a chapter\<close>

text \<open>
  C1. For every budget and every chapter \<open>i\<close> of the book, the blocks of the pages that
  carry chapter index \<open>i\<close>, taken in the order of their page numbers and concatenated, are the
  chapter's block list. Every page emitted carries the index of a chapter of the book, and
  its blocks are a run of consecutive blocks of that chapter. \<^verbatim>\<open>paginate_book\<close> is this
  pagination at the budget of the settings' font size.
\<close>

theorem paginate_reassembles:
  "(i < length chs \<longrightarrow>
      concat (map blocks (sort_key page_in_chapter (pages_of i (paginate_chapters limit chs))))
        = cblocks (chs ! i)) \<and>
   (p \<in> set (paginate_chapters limit chs) \<longrightarrow>
      chapter_index p < length chs \<and>
      (\<exists>pre post. cblocks (chs ! chapter_index p) = pre @ blocks p @ post)) \<and>
   paginate_book eb settings =
     paginate_chapters (chars_per_page (font_size settings)) (chapters eb)"
proof (intro conjI impI)
  assume i: "i < length chs"
  let ?F = "pages_of i (paginate_chapters limit chs)"
  have ok: "chapter_ok (chs ! i) ?F" by (rule chapter_ok_pages_of [OF i])
  then have "sort_key page_in_chapter ?F = ?F"
    by (intro sorted_numbered) (simp add: chapter_ok_def)
  then show "concat (map blocks (sort_key page_in_chapter ?F)) = cblocks (chs ! i)"
    using ok by (simp add: chapter_ok_def)
next
  assume p: "p \<in> set (paginate_chapters limit chs)"
  then show lt: "chapter_index p < length chs"
    using paginate_chapters_inv [of limit chs] by blast
  let ?F = "pages_of (chapter_index p) (paginate_chapters limit chs)"
  have "p \<in> set ?F" using p by (simp add: pages_of_def)
  then obtain F1 F2 where F: "?F = F1 @ p # F2"
    by (meson split_list)
  have "concat (map blocks ?F) = cblocks (chs ! chapter_index p)"
    using chapter_ok_pages_of [OF lt, of limit] by (simp add: chapter_ok_def)
  then have "cblocks (chs ! chapter_index p)
      = concat (map blocks F1) @ blocks p @ concat (map blocks F2)"
    unfolding F by simp
  then show "\<exists>pre post. cblocks (chs ! chapter_index p) = pre @ blocks p @ post"
    by blast
next
  show "paginate_book eb settings =
     paginate_chapters (chars_per_page (font_size settings)) (chapters eb)"
    by (rule paginate_book_unfold)
qed

theorem paginate_reassembles_witness:
  "(0::nat) < length chs0 \<and>
   concat (map blocks (sort_key page_in_chapter (pages_of 0 (paginate_chapters 1 chs0))))
     = [TextBlock ''ab'', ImageBlock ''QQ=='' ''pic''] \<and>
   \<lparr>chapter_index = 2, chapter_title = ''C'', page_in_chapter = 1, blocks = [TextBlock ''xyz'']\<rparr>
     \<in> set (paginate_chapters 1 chs0) \<and>
   (\<exists>pre post. cblocks (chs0 ! 2) = pre @ [TextBlock ''xyz''] @ post)"
  using paginate_reassembles [of 0 chs0 1
      "\<lparr>chapter_index = 2, chapter_title = ''C'', page_in_chapter = 1, blocks = [TextBlock ''xyz'']\<rparr>"]
  by (simp add: paginate_chs0) (simp add: chs0_def)


text \<open>
  C4. For every budget and every chapter index, the page numbers of that chapter's pages
  are 1, 2, ..., k in this order; no emitted page has an empty block list; a chapter
  without blocks has no pages.
\<close>

theorem page_numbers_contiguous:
  "map page_in_chapter (pages_of i (paginate_chapters limit chs))
     = [1..int (length (pages_of i (paginate_chapters limit chs)))] \<and>
   (p \<in> set (paginate_chapters limit chs) \<longrightarrow> blocks p \<noteq> []) \<and>
   (i < length chs \<and> cblocks (chs ! i) = [] \<longrightarrow> pages_of i (paginate_chapters limit chs) = []) \<and>
   paginate_book eb settings =
     paginate_chapters (chars_per_page (font_size settings)) (chapters eb)"
proof (intro conjI impI)
  let ?F = "pages_of i (paginate_chapters limit chs)"
  show "map page_in_chapter ?F = [1..int (length ?F)]"
  proof (cases "i < length chs")
    case True
    from chapter_ok_pages_of [OF True, of limit] show ?thesis
      by (intro numbered_from_1) (simp add: chapter_ok_def)
  next
    case False
    then show ?thesis by (simp add: pages_of_beyond)
  qed
next
  assume "p \<in> set (paginate_chapters limit chs)"
  then show "blocks p \<noteq> []"
    using paginate_chapters_inv [of limit chs] by blast
next
  assume a: "i < length chs \<and> cblocks (chs ! i) = []"
  let ?F = "pages_of i (paginate_chapters limit chs)"
  have "concat (map blocks ?F) = []"
    using chapter_ok_pages_of [of i chs limit] a by (simp add: chapter_ok_def)
  moreover have "\<forall>q \<in> set ?F. blocks q \<noteq> []"
    using paginate_chapters_inv [of limit chs] by (auto simp: pages_of_def)
  ultimately show "?F = []"
    by (cases ?F) auto
next
  show "paginate_book eb settings =
     paginate_chapters (chars_per_page (font_size settings)) (chapters eb)"
    by (rule paginate_book_unfold)
qed

theorem page_numbers_contiguous_witness:
  "\<lparr>chapter_index = 0, chapter_title = ''A'', page_in_chapter = 2, blocks = [ImageBlock ''QQ=='' ''pic'']\<rparr>
     \<in> set (paginate_chapters 1 chs0) \<and>
   (1::nat) < length chs0 \<and> cblocks (chs0 ! 1) = [] \<and>
   pages_of 1 (paginate_chapters 1 chs0) = [] \<and>
   map page_in_chapter (pages_of 0 (paginate_chapters 1 chs0)) = [1, 2]"
  using page_numbers_contiguous [of 1 1 chs0
      "\<lparr>chapter_index = 0, chapter_title = ''A'', page_in_chapter = 2, blocks = [ImageBlock ''QQ=='' ''pic'']\<rparr>"]
    page_numbers_contiguous [of 0 1 chs0]
  by (simp add: paginate_chs0 pages_of_def) (simp add: chs0_def)


section \<open>Greedy flushing\<close>

text \<open>
  C2. When the buffer is not empty and the running cost plus the block's cost exceeds the
  budget, the loop body first appends the buffer as a page with the next page number,
  and the new buffer holds the block alone, at the block's cost; otherwise
  the block joins the buffer. With a font size of 72 or more the budget is 800, and a
  chapter of three text blocks of lengths 500, 400 and 100 is paginated into two pages: the
  first block alone, then the other two.
\<close>

theorem greedy_flush:
  "(current_blocks st \<noteq> [] \<and> current_chars st + block_cost limit blk > limit \<longrightarrow>
      add_block limit ci ct st blk =
        st\<lparr>pages := pages st @ [\<lparr>chapter_index = ci, chapter_title = ct,
                                    page_in_chapter = page_counter st,
                                    blocks = current_blocks st\<rparr>],
           page_counter := page_counter st + 1,
           current_blocks := [blk],
           current_chars := block_cost limit blk\<rparr>) \<and>
   (\<not> (current_blocks st \<noteq> [] \<and> current_chars st + block_cost limit blk > limit) \<longrightarrow>
      add_block limit ci ct st blk =
        st\<lparr>current_blocks := current_blocks st @ [blk],
           current_chars := current_chars st + block_cost limit blk\<rparr>) \<and>
   (length t1 = 500 \<and> length t2 = 400 \<and> length t3 = 100 \<and> 72 \<le> font_size settings \<and>
    chapters eb = [\<lparr>ctitle = T, cblocks = [TextBlock t1, TextBlock t2, TextBlock t3]\<rparr>] \<longrightarrow>
      chars_per_page (font_size settings) = 800 \<and>
      paginate_book eb settings =
        [\<lparr>chapter_index = 0, chapter_title = T, page_in_chapter = 1, blocks = [TextBlock t1]\<rparr>,
         \<lparr>chapter_index = 0, chapter_title = T, page_in_chapter = 2,
           blocks = [TextBlock t2, TextBlock t3]\<rparr>])"
proof (intro conjI impI)
  assume "current_blocks st \<noteq> [] \<and> current_chars st + block_cost limit blk > limit"
  then have "must_flush limit st blk" by (simp add: must_flush_def)
  then show "add_block limit ci ct st blk =
        st\<lparr>pages := pages st @ [\<lparr>chapter_index = ci, chapter_title = ct,
                                    page_in_chapter = page_counter st,
                                    blocks = current_blocks st\<rparr>],
           page_counter := page_counter st + 1,
           current_blocks := [blk],
           current_chars := block_cost limit blk\<rparr>"
    by (rule add_block_flush)
next
  assume "\<not> (current_blocks st \<noteq> [] \<and> current_chars st + block_cost limit blk > limit)"
  then have "\<not> must_flush limit st blk" by (simp add: must_flush_def)
  then show "add_block limit ci ct st blk =
        st\<lparr>current_blocks := current_blocks st @ [blk],
           current_chars := current_chars st + block_cost limit blk\<rparr>"
    by (rule add_block_keep)
next
  assume a: "length t1 = 500 \<and> length t2 = 400 \<and> length t3 = 100 \<and> 72 \<le> font_size settings \<and>
    chapters eb = [\<lparr>ctitle = T, cblocks = [TextBlock t1, TextBlock t2, TextBlock t3]\<rparr>]"
  then show b: "chars_per_page (font_size settings) = 800"
    by (simp add: chars_per_page_72)
  show "paginate_book eb settings =
        [\<lparr>chapter_index = 0, chapter_title = T, page_in_chapter = 1, blocks = [TextBlock t1]\<rparr>,
         \<lparr>chapter_index = 0, chapter_title = T, page_in_chapter = 2,
           blocks = [TextBlock t2, TextBlock t3]\<rparr>]"
    using a by (simp add: paginate_book_def b paginate_eval)
qed


theorem greedy_flush_witness:
  "current_blocks \<lparr>pages = [], current_blocks = [TextBlock (replicate 500 CHR ''a'')],
                    current_chars = 500, page_counter = 1\<rparr> \<noteq> [] \<and>
   (500::int) + block_cost 800 (TextBlock (replicate 400 CHR ''b'')) > 800 \<and>
   add_block 800 0 ''T''
     \<lparr>pages = [], current_blocks = [TextBlock (replicate 500 CHR ''a'')],
      current_chars = 500, page_counter = 1\<rparr>
     (TextBlock (replicate 400 CHR ''b'')) =
     \<lparr>pages = [\<lparr>chapter_index = 0, chapter_title = ''T'', page_in_chapter = 1,
                 blocks = [TextBlock (replicate 500 CHR ''a'')]\<rparr>],
      current_blocks = [TextBlock (replicate 400 CHR ''b'')],
      current_chars = 400, page_counter = 2\<rparr> \<and>
   \<not> (current_blocks \<lparr>pages = [], current_blocks = [TextBlock (replicate 400 CHR ''b'')],
                        current_chars = 400, page_counter = 2\<rparr> \<noteq> [] \<and>
      (400::int) + block_cost 800 (TextBlock (replicate 100 CHR ''c'')) > 800) \<and>
   length (replicate 500 CHR ''a'') = 500 \<and> length (replicate 400 CHR ''b'') = 400 \<and>
   length (replicate 100 CHR ''c'') = 100 \<and>
   paginate_book
     \<lparr>title = ''B'', author = ''X'',
      chapters = [\<lparr>ctitle = ''T'',
                   cblocks = [TextBlock (replicate 500 CHR ''a''),
                              TextBlock (replicate 400 CHR ''b''),
                              TextBlock (replicate 100 CHR ''c'')]\<rparr>]\<rparr>
     \<lparr>font_size = 72, theme = ''sepia'', font_key = ''default'', margins = True, bold = False\<rparr> =
     [\<lparr>chapter_index = 0, chapter_title = ''T'', page_in_chapter = 1,
       blocks = [TextBlock (replicate 500 CHR ''a'')]\<rparr>,
      \<lparr>chapter_index = 0, chapter_title = ''T'', page_in_chapter = 2,
       blocks = [TextBlock (replicate 400 CHR ''b''), TextBlock (replicate 100 CHR ''c'')]\<rparr>]"
  using greedy_flush [of
      "\<lparr>pages = [], current_blocks = [TextBlock (replicate 500 CHR ''a'')],
        current_chars = 500, page_counter = 1\<rparr>"
      800 "TextBlock (replicate 400 CHR ''b'')" 0 "''T''"
      "replicate 500 CHR ''a''" "replicate 400 CHR ''b''" "replicate 100 CHR ''c''"
      "\<lparr>font_size = 72, theme = ''sepia'', font_key = ''default'', margins = True, bold = False\<rparr>"
      "\<lparr>title = ''B'', author = ''X'',
        chapters = [\<lparr>ctitle = ''T'',
                     cblocks = [TextBlock (replicate 500 CHR ''a''),
                                TextBlock (replicate 400 CHR ''b''),
                                TextBlock (replicate 100 CHR ''c'')]\<rparr>]\<rparr>"
      "''T''"]
  by (simp add: block_cost_def)

section \<open>Oversized blocks\<close>

lemma img_cost_nonneg: "0 \<le> limit \<Longrightarrow> 0 \<le> img_cost limit"
  by (simp add: img_cost_def Let_def)

lemma block_cost_nonneg: "0 \<le> limit \<Longrightarrow> 0 \<le> block_cost limit b"
  by (cases b) (simp_all add: block_cost_def img_cost_nonneg)

lemma cost_le_sum:
  assumes "0 \<le> limit" and "b \<in> set bs"
  shows "block_cost limit b \<le> sum_list (map (block_cost limit) bs)"
  using assms(2)
proof (induction bs)
  case Nil
  then show ?case by simp
next
  case (Cons x xs)
  have nn: "0 \<le> sum_list (map (block_cost limit) xs)"
    by (rule sum_list_nonneg) (auto simp: block_cost_nonneg [OF assms(1)])
  show ?case
  proof (cases "b = x")
    case True
    then show ?thesis using nn by simp
  next
    case False
    then have "block_cost limit b \<le> sum_list (map (block_cost limit) xs)"
      using Cons by simp
    then show ?thesis using block_cost_nonneg [OF assms(1), of x] by simp
  qed
qed

lemma alone_ok_single: "alone_ok limit [b]"
  by (simp add: alone_ok_def)

lemma alone_ok_Nil: "alone_ok limit []"
  by (simp add: alone_ok_def)

lemma cost_inv_flush:
  "cost_inv limit st \<Longrightarrow> cost_inv limit (flush_page ci ct st)"
  by (auto simp: cost_inv_def flush_page_def alone_ok_Nil)

lemma cost_inv_add:
  assumes "0 \<le> limit" and inv: "cost_inv limit st"
  shows "cost_inv limit (add_block limit ci ct st blk)"
proof (cases "must_flush limit st blk")
  case True
  then show ?thesis
    using inv by (auto simp: add_block_flush cost_inv_def alone_ok_single)
next
  case False
  let ?bs = "current_blocks st"
  have sum: "current_chars st = sum_list (map (block_cost limit) ?bs)"
    using inv by (simp add: cost_inv_def)
  have "alone_ok limit (?bs @ [blk])"
  proof (cases "?bs = []")
    case True
    then show ?thesis by (simp add: alone_ok_single)
  next
    case ne: False
    then have le: "current_chars st + block_cost limit blk \<le> limit"
      using False by (simp add: must_flush_def)
    have "block_cost limit b \<le> limit" if "b \<in> set (?bs @ [blk])" for b
    proof (cases "b \<in> set ?bs")
      case True
      then have "block_cost limit b \<le> current_chars st"
        unfolding sum by (rule cost_le_sum [OF assms(1)])
      then show ?thesis
        using le block_cost_nonneg [OF assms(1), of blk] by linarith
    next
      case False
      then have "b = blk" using that by simp
      moreover have "0 \<le> current_chars st"
        unfolding sum by (rule sum_list_nonneg) (auto simp: block_cost_nonneg [OF assms(1)])
      ultimately show ?thesis using le by simp
    qed
    then show ?thesis by (fastforce simp: alone_ok_def)
  qed
  then show ?thesis
    using inv False by (simp add: add_block_keep cost_inv_def)
qed

lemma cost_inv_foldl:
  "0 \<le> limit \<Longrightarrow> cost_inv limit st \<Longrightarrow>
   cost_inv limit (foldl (add_block limit ci ct) st bs)"
  by (induction bs arbitrary: st) (simp_all add: cost_inv_add)

lemma alone_paginate_chapter:
  assumes "0 \<le> limit" and "\<forall>p \<in> set pgs. alone_ok limit (blocks p)"
  shows "\<forall>p \<in> set (paginate_chapter limit pgs (ci, ch)). alone_ok limit (blocks p)"
proof -
  let ?st0 = "\<lparr>pages = pgs, current_blocks = [], current_chars = 0, page_counter = 1\<rparr>"
  have "cost_inv limit ?st0"
    using assms(2) by (simp add: cost_inv_def alone_ok_Nil)
  then have "cost_inv limit
      (flush_page ci (ctitle ch) (foldl (add_block limit ci (ctitle ch)) ?st0 (cblocks ch)))"
    by (intro cost_inv_flush cost_inv_foldl assms(1))
  then show ?thesis
    by (simp add: paginate_chapter_def cost_inv_def)
qed

lemma alone_paginate_chapters:
  assumes "0 \<le> limit"
  shows "\<forall>p \<in> set (paginate_chapters limit chs). alone_ok limit (blocks p)"
proof (induction chs rule: rev_induct)
  case Nil
  show ?case by simp
next
  case (snoc ch chs)
  show ?case
    unfolding paginate_chapters_snoc
    by (rule alone_paginate_chapter [OF assms snoc])
qed

lemma paginate_single:
  "paginate_chapters limit [\<lparr>ctitle = T, cblocks = [blk]\<rparr>] =
     [\<lparr>chapter_index = 0, chapter_title = T, page_in_chapter = 1, blocks = [blk]\<rparr>]"
  by (simp add: paginate_chapters_def paginate_chapter_def flush_page_def add_block_eq
      must_flush_def Let_def)


text \<open>
  C8. A block is never split. On an empty buffer the loop body appends the block without a
  flush, whatever its cost, so the running cost may exceed the budget; a chapter of one
  block gives one page with that block; for a budget that is not negative, and so for
  the budget of any settings, a block dearer than the budget is the only block of its
  page; and with a font size of 72 or more (budget 800) a single text block of length 900
  gives a single page.
\<close>

theorem oversized_block_alone:
  "(current_blocks st = [] \<longrightarrow>
      add_block limit ci ct st blk =
        st\<lparr>current_blocks := [blk],
           current_chars := current_chars st + block_cost limit blk\<rparr>) \<and>
   paginate_chapters limit [\<lparr>ctitle = T, cblocks = [blk]\<rparr>] =
     [\<lparr>chapter_index = 0, chapter_title = T, page_in_chapter = 1, blocks = [blk]\<rparr>] \<and>
   (0 \<le> limit \<and> p \<in> set (paginate_chapters limit chs) \<and> b \<in> set (blocks p) \<and>
    block_cost limit b > limit \<longrightarrow> blocks p = [b]) \<and>
   (length t = 900 \<and> 72 \<le> font_size settings \<and>
    chapters eb = [\<lparr>ctitle = T, cblocks = [TextBlock t]\<rparr>] \<longrightarrow>
      block_cost (chars_per_page (font_size settings)) (TextBlock t)
        > chars_per_page (font_size settings) \<and>
      paginate_book eb settings =
        [\<lparr>chapter_index = 0, chapter_title = T, page_in_chapter = 1, blocks = [TextBlock t]\<rparr>]) \<and>
   (p \<in> set (paginate_book eb settings) \<and> b \<in> set (blocks p) \<and>
    block_cost (chars_per_page (font_size settings)) b > chars_per_page (font_size settings)
      \<longrightarrow> blocks p = [b])"
proof (intro conjI impI)
  assume "current_blocks st = []"
  then have "\<not> must_flush limit st blk" by (simp add: must_flush_def)
  from add_block_keep [OF this] \<open>current_blocks st = []\<close>
  show "add_block limit ci ct st blk =
        st\<lparr>current_blocks := [blk],
           current_chars := current_chars st + block_cost limit blk\<rparr>"
    by simp
next
  show "paginate_chapters limit [\<lparr>ctitle = T, cblocks = [blk]\<rparr>] =
     [\<lparr>chapter_index = 0, chapter_title = T, page_in_chapter = 1, blocks = [blk]\<rparr>]"
    by (rule paginate_single)
next
  assume a: "0 \<le> limit \<and> p \<in> set (paginate_chapters limit chs) \<and> b \<in> set (blocks p) \<and>
    block_cost limit b > limit"
  then have "alone_ok limit (blocks p)"
    using alone_paginate_chapters [of limit chs] by blast
  then show "blocks p = [b]"
    using a by (simp add: alone_ok_def)
next
  assume a: "length t = 900 \<and> 72 \<le> font_size settings \<and>
    chapters eb = [\<lparr>ctitle = T, cblocks = [TextBlock t]\<rparr>]"
  then show "block_cost (chars_per_page (font_size settings)) (TextBlock t)
        > chars_per_page (font_size settings)"
    by (simp add: chars_per_page_72 block_cost_def)
  show "paginate_book eb settings =
        [\<lparr>chapter_index = 0, chapter_title = T, page_in_chapter = 1, blocks = [TextBlock t]\<rparr>]"
    using a by (simp add: paginate_book_def paginate_single)
next
  let ?L = "chars_per_page (font_size settings)"
  assume a: "p \<in> set (paginate_book eb settings) \<and> b \<in> set (blocks p) \<and>
    block_cost ?L b > ?L"
  have "0 \<le> ?L" by (simp add: chars_per_page_eq)
  then have "alone_ok ?L (blocks p)"
    using a alone_paginate_chapters [of ?L "chapters eb"] by (simp add: paginate_book_def)
  then show "blocks p = [b]"
    using a by (simp add: alone_ok_def)
qed

theorem oversized_block_alone_witness:
  "current_blocks \<lparr>pages = [], current_blocks = [], current_chars = 0, page_counter = 1\<rparr> = [] \<and>
   add_block 800 0 ''T'' \<lparr>pages = [], current_blocks = [], current_chars = 0, page_counter = 1\<rparr>
     (TextBlock (replicate 900 CHR ''a'')) =
     \<lparr>pages = [], current_blocks = [TextBlock (replicate 900 CHR ''a'')],
      current_chars = 900, page_counter = 1\<rparr> \<and>
   (0::int) \<le> 800 \<and>
   \<lparr>chapter_index = 0, chapter_title = ''T'', page_in_chapter = 1,
     blocks = [TextBlock (replicate 900 CHR ''a'')]\<rparr>
     \<in> set (paginate_chapters 800 [\<lparr>ctitle = ''T'', cblocks = [TextBlock (replicate 900 CHR ''a'')]\<rparr>]) \<and>
   block_cost 800 (TextBlock (replicate 900 CHR ''a'')) > 800 \<and>
   length (replicate 900 CHR ''a'') = 900 \<and>
   paginate_book
     \<lparr>title = ''B'', author = ''X'',
      chapters = [\<lparr>ctitle = ''T'', cblocks = [TextBlock (replicate 900 CHR ''a'')]\<rparr>]\<rparr>
     \<lparr>font_size = 72, theme = ''sepia'', font_key = ''default'', margins = True, bold = False\<rparr> =
     [\<lparr>chapter_index = 0, chapter_title = ''T'', page_in_chapter = 1,
       blocks = [TextBlock (replicate 900 CHR ''a'')]\<rparr>] \<and>
   block_cost (chars_per_page 72) (TextBlock (replicate 900 CHR ''a'')) > chars_per_page 72"
  using oversized_block_alone [of
      "\<lparr>pages = [], current_blocks = [], current_chars = 0, page_counter = 1\<rparr>"
      800 0 "''T''" "TextBlock (replicate 900 CHR ''a'')" "''T''"
      "\<lparr>chapter_index = 0, chapter_title = ''T'', page_in_chapter = 1,
        blocks = [TextBlock (replicate 900 CHR ''a'')]\<rparr>"
      "[\<lparr>ctitle = ''T'', cblocks = [TextBlock (replicate 900 CHR ''a'')]\<rparr>]"
      "TextBlock (replicate 900 CHR ''a'')"
      "replicate 900 CHR ''a''"
      "\<lparr>font_size = 72, theme = ''sepia'', font_key = ''default'', margins = True, bold = False\<rparr>"
      "\<lparr>title = ''B'', author = ''X'',
        chapters = [\<lparr>ctitle = ''T'', cblocks = [TextBlock (replicate 900 CHR ''a'')]\<rparr>]\<rparr>"]
  by (simp add: block_cost_def)


section \<open>Metadata\<close>

text \<open>
  C9, as the code has it. Without a title entry both \<^verbatim>\<open>get_epub_metadata\<close> and the
  loader take the path's stem; without a creator entry \<^verbatim>\<open>get_epub_metadata\<close> gives the
  empty string and the loader gives \<^verbatim>\<open>"Desconocido"\<close>; with entries both take the value
  of the first one. Without the libraries, or when the package cannot be read,
  \<^verbatim>\<open>get_epub_metadata\<close> gives the stem and the empty string.
\<close>

theorem metadata_fallbacks:
  "(dc_title book = [] \<longrightarrow>
      fst (get_epub_metadata True stem (Inr book)) = stem \<and> title (load b64 stem book) = stem) \<and>
   (dc_creator book = [] \<longrightarrow>
      snd (get_epub_metadata True stem (Inr book)) = [] \<and>
      author (load b64 stem book) = ''Desconocido'') \<and>
   (dc_title book = (tv, ta) # ts \<longrightarrow>
      fst (get_epub_metadata True stem (Inr book)) = tv \<and> title (load b64 stem book) = tv) \<and>
   (dc_creator book = (av, aa) # as \<longrightarrow>
      snd (get_epub_metadata True stem (Inr book)) = av \<and> author (load b64 stem book) = av) \<and>
   get_epub_metadata False stem opened = (stem, []) \<and>
   get_epub_metadata True stem (Inl e) = (stem, []) \<and>
   EpubBook_init True b64 stem (Inr book) = Inr (load b64 stem book)"
  by (simp add: get_epub_metadata_def load_def EpubBook_init_def Let_def)

text \<open>A package without creator, loaded: the author is not the empty string.\<close>

theorem author_fallback_counterexample:
  "EpubBook_init True id ''libro'' (Inr pkg_absent)
     = Inr \<lparr>title = ''libro'', author = ''Desconocido'', chapters = []\<rparr> \<and>
   author (load id ''libro'' pkg_absent) \<noteq> []"
  by (simp add: EpubBook_init_def load_def pkg_absent_def image_map_def Let_def)

theorem metadata_fallbacks_witness:
  "dc_title pkg_absent = [] \<and> dc_creator pkg_absent = [] \<and>
   get_epub_metadata True ''libro'' (Inr pkg_absent) = (''libro'', []) \<and>
   title (load id ''libro'' pkg_absent) = ''libro'' \<and>
   author (load id ''libro'' pkg_absent) = ''Desconocido'' \<and>
   dc_title pkg_present = (''Rayuela'', []) # [] \<and>
   dc_creator pkg_present = (''Cortazar'', []) # [] \<and>
   get_epub_metadata True ''libro'' (Inr pkg_present) = (''Rayuela'', ''Cortazar'') \<and>
   title (load id ''libro'' pkg_present) = ''Rayuela'' \<and>
   author (load id ''libro'' pkg_present) = ''Cortazar''"
  using metadata_fallbacks [of pkg_absent "''libro''" id]
    metadata_fallbacks [of pkg_present "''libro''" id "''Rayuela''" "[]" "[]" "''Cortazar''" "[]" "[]"]
  by (simp add: pkg_absent_def pkg_present_def prod_eq_iff)


section \<open>The reading position\<close>

lemma get_pages_hit:
  "cached_pages pages_cache book = Some cached \<Longrightarrow>
   get_pages_for_book fe oe settings pages_cache book = (cached, book, pages_cache)"
  by (simp add: get_pages_for_book_def cached_pages_def)

lemma get_pages_miss:
  assumes "cached_pages pages_cache book = None"
    and "get_pages_for_book fe oe settings pages_cache book = (pgs, book', cache')"
  shows "total_pages book' = int (length pgs)"
    and "current_page book' = (if current_page book \<ge> int (length pgs) then 0 else current_page book)"
    and "pgs = fst (compute_pages fe oe settings book)"
proof -
  obtain ps b1 where c: "compute_pages fe oe settings book = (ps, b1)"
    by (cases "compute_pages fe oe settings book")
  have cp: "current_page b1 = current_page book"
    using c
    by (auto simp: compute_pages_def Let_def split: option.splits if_splits sum.splits)
  have r: "pgs = ps"
    "book' = (if current_page b1 \<ge> int (length ps)
              then b1\<lparr>total_pages := int (length ps), current_page := 0\<rparr>
              else b1\<lparr>total_pages := int (length ps)\<rparr>)"
    using assms c
    by (auto simp: get_pages_for_book_def cached_pages_def Let_def split: if_splits)
  show "total_pages book' = int (length pgs)" using r by simp
  show "current_page book' = (if current_page book \<ge> int (length pgs) then 0 else current_page book)"
    using r cp by simp
  show "pgs = fst (compute_pages fe oe settings book)" using r c by simp
qed

text \<open>The invariant holds at the start and every handler keeps it.\<close>

lemma compute_pages_fields:
  "compute_pages fe oe s b = (ps, b1) \<Longrightarrow>
   book_id b1 = book_id b \<and> current_page b1 = current_page b"
  by (auto simp: compute_pages_def Let_def split: option.splits if_splits sum.splits)

lemma get_pages_result:
  assumes "get_pages_for_book fe oe s c b = (pgs, b', c')" and "book_id b = Some i"
  shows "book_id b' = Some i" and "c' i = Some pgs" and "\<And>j. j \<noteq> i \<Longrightarrow> c' j = c j"
    and "c i = None \<Longrightarrow> total_pages b' = int (length pgs)"
    and "c i = None \<Longrightarrow> current_page b' = (if current_page b \<ge> int (length pgs) then 0 else current_page b)"
    and "c i \<noteq> None \<Longrightarrow> b' = b"
proof -
  obtain ps b1 where cp: "compute_pages fe oe s b = (ps, b1)"
    by (cases "compute_pages fe oe s b")
  note f = compute_pages_fields [OF cp]
  show "book_id b' = Some i" using assms cp f
    by (auto simp: get_pages_for_book_def cached_pages_def Let_def split: option.splits if_splits)
  show "c' i = Some pgs" using assms cp f
    by (auto simp: get_pages_for_book_def cached_pages_def Let_def split: option.splits if_splits)
  show "\<And>j. j \<noteq> i \<Longrightarrow> c' j = c j" using assms cp f
    by (auto simp: get_pages_for_book_def cached_pages_def Let_def split: option.splits if_splits)
  show "c i = None \<Longrightarrow> total_pages b' = int (length pgs)" using assms cp f
    by (auto simp: get_pages_for_book_def cached_pages_def Let_def split: option.splits if_splits)
  show "c i = None \<Longrightarrow> current_page b' = (if current_page b \<ge> int (length pgs) then 0 else current_page b)"
    using assms cp f
    by (auto simp: get_pages_for_book_def cached_pages_def Let_def split: option.splits if_splits)
  show "c i \<noteq> None \<Longrightarrow> b' = b" using assms
    by (auto simp: get_pages_for_book_def cached_pages_def Let_def split: option.splits if_splits)
qed


lemma book_with_Some:
  "book_with i bs = Some b \<Longrightarrow> b \<in> set bs \<and> book_id b = Some i"
  by (auto simp: book_with_def find_Some_iff)




lemma cache_ok_index [simp]:
  "cache_ok (st\<lparr>current_page_index := v\<rparr>) = cache_ok st"
  "cache_ok (st\<lparr>current_book := cb\<rparr>) = cache_ok st"
  "cache_ok (st\<lparr>reader_settings := s\<rparr>) = cache_ok st"
  by (simp_all add: cache_ok_def)















text \<open>
  The open book is always one of the listed books: \<^verbatim>\<open>do_delete\<close> closes the book that it
  deletes, and no handler changes an identifier.
\<close>

lemma book_with_None: "book_with i bs = None \<longleftrightarrow> Some i \<notin> book_id ` set bs"
  by (force simp: book_with_def find_None_iff)

lemma ids_update_book:
  "(\<And>b. book_id b = Some i \<Longrightarrow> book_id (f b) = Some i) \<Longrightarrow>
   map book_id (update_book i f bs) = map book_id bs"
  by (induction bs) (simp_all add: update_book_def)

lemma call_get_pages_ids:
  assumes "call_get_pages fe oe i st = (pgs, st1)"
  shows "map book_id (books st1) = map book_id (books st)" and "current_book st1 = current_book st"
proof -
  show "current_book st1 = current_book st"
    using assms by (auto simp: call_get_pages_def split: option.splits prod.splits)
  show "map book_id (books st1) = map book_id (books st)"
  proof (cases "book_with i (books st)")
    case None
    then show ?thesis using assms by (simp add: call_get_pages_def)
  next
    case (Some b)
    obtain b' c' where g: "get_pages_for_book fe oe (reader_settings st) (cache st) b = (pgs, b', c')"
      and s: "st1 = st\<lparr>books := update_book i (\<lambda>_. b') (books st), cache := c'\<rparr>"
      using assms Some by (auto simp: call_get_pages_def split: prod.splits)
    have "book_id b' = Some i"
      using get_pages_result(1) [OF g] book_with_Some [OF Some] by simp
    then show ?thesis using s by (simp add: ids_update_book)
  qed
qed

lemma open_ok_ids:
  "map book_id (books st') = map book_id (books st) \<Longrightarrow> current_book st' = current_book st \<Longrightarrow>
   open_ok st \<Longrightarrow> open_ok st'"
  by (auto simp: open_ok_def book_with_None split: option.splits dest: arg_cong [where f = set])

lemma show_page_ids:
  "map book_id (books (show_page fe oe st)) = map book_id (books st) \<and>
   current_book (show_page fe oe st) = current_book st"
proof (cases "current_book st")
  case None
  then show ?thesis by (simp add: show_page_def)
next
  case (Some i)
  obtain pgs st1 where c: "call_get_pages fe oe i st = (pgs, st1)"
    by (cases "call_get_pages fe oe i st")
  show ?thesis using Some c call_get_pages_ids [OF c]
    by (simp add: show_page_def Let_def ids_update_book)
qed

lemma handle_keyboard_ids:
  "map book_id (books (handle_keyboard fe oe k st)) = map book_id (books st) \<and>
   current_book (handle_keyboard fe oe k st) = current_book st"
proof (cases "current_book st")
  case None
  then show ?thesis by (simp add: handle_keyboard_def)
next
  case (Some i)
  obtain pgs st1 where c: "call_get_pages fe oe i st = (pgs, st1)"
    by (cases "call_get_pages fe oe i st")
  show ?thesis using Some c call_get_pages_ids [OF c]
    by (cases k) (simp_all add: handle_keyboard_def show_page_ids)
qed

lemma show_page_open_ok: "open_ok st \<Longrightarrow> open_ok (show_page fe oe st)"
  using show_page_ids [of fe oe st] by (auto intro: open_ok_ids)

lemma handle_keyboard_open_ok: "open_ok st \<Longrightarrow> open_ok (handle_keyboard fe oe k st)"
  using handle_keyboard_ids [of fe oe k st] by (auto intro: open_ok_ids)

lemma open_reader_open_ok: "open_ok st \<Longrightarrow> open_ok (open_reader fe oe i st)"
proof (cases "book_with i (books st)")
  case None
  then show "open_ok st \<Longrightarrow> ?thesis" by (simp add: open_reader_def)
next
  case (Some b)
  have "open_ok (st\<lparr>current_book := Some i, current_page_index := current_page b\<rparr>)"
    using Some by (simp add: open_ok_def split: option.splits)
  then show ?thesis using Some
    by (simp add: open_reader_def apply_theme_to_reader_def show_page_open_ok)
qed

lemma handle_open_ok: "open_ok st \<Longrightarrow> open_ok (handle fe oe ev st)"
proof (cases ev)
  case (Delete i)
  assume "open_ok st"
  then show ?thesis using Delete
    by (auto simp: do_delete_def open_ok_def Let_def book_with_None split: option.splits)
next
  case (Continuar lb lp)
  assume ok: "open_ok st"
  have u: "open_ok (st\<lparr>books := update_book i (\<lambda>b. b\<lparr>current_page := v\<rparr>) (books st)\<rparr>)" for i v
    using ok by (rule open_ok_ids [rotated 2]) (simp_all add: ids_update_book)
  show ?thesis using Continuar ok u
    by (auto simp: continuar_click_def Let_def open_reader_open_ok split: option.splits list.splits)
next
  case (FilePicked t a p c)
  assume "open_ok st"
  then show ?thesis using FilePicked
    by (auto simp: on_file_picked_def open_ok_def Let_def book_with_None split: option.splits)
next
  case (SliderChange v)
  assume "open_ok st"
  then have "open_ok (st\<lparr>current_page_index := v\<rparr>)" by (simp add: open_ok_def split: option.splits)
  then show ?thesis using SliderChange by (simp add: on_slider_change_def show_page_open_ok)
next
  case (Keyboard k)
  assume "open_ok st"
  then show ?thesis using Keyboard by (simp add: handle_keyboard_open_ok)
next
  case (SaveSettings s)
  assume "open_ok st"
  then have "open_ok (st\<lparr>reader_settings := s\<rparr>)" by (simp add: open_ok_def split: option.splits)
  then show ?thesis using SaveSettings
    by (simp add: save_settings_click_def apply_theme_to_reader_def show_page_open_ok)
next
  case (OpenReader i)
  assume "open_ok st"
  then show ?thesis using OpenReader by (simp add: open_reader_open_ok)
next
  case (ToggleFavorite i)
  assume "open_ok st"
  then show ?thesis using ToggleFavorite
    by (auto simp: toggle_favorite_def ids_update_book intro: open_ok_ids)
next
  case (ToggleRead i)
  assume "open_ok st"
  then show ?thesis using ToggleRead
    by (auto simp: toggle_read_def ids_update_book intro: open_ok_ids)
next
  case (SaveTags i v)
  assume "open_ok st"
  then show ?thesis using SaveTags
    by (auto simp: save_tags_def ids_update_book intro: open_ok_ids)
qed

lemma current_book_listed:
  "reachable st \<Longrightarrow> current_book st = Some i \<Longrightarrow> \<exists>b. book_with i (books st) = Some b"
proof -
  assume r: "reachable st" and c: "current_book st = Some i"
  from r have "open_ok st"
  proof (induction rule: reachable.induct)
    case (start st)
    then show ?case by (simp add: initial_def open_ok_def)
  next
    case (step st fe oe ev)
    then show ?case by (simp only: handle_open_ok)
  qed
  then show ?thesis using c by (auto simp: open_ok_def)
qed






section \<open>The loader\<close>

lemmas load_eval =
  load_def body_def find_tag_def has_name_def chap_title_of_def extract_blocks_def
  elem_step_def text_step_def img_step_def get_text_def image_map_def Let_def

lemma load_doc0:
  "chapters (load id ''libro'' \<lparr>dc_title = [], dc_creator = [], get_items = [EpubHtml doc0]\<rparr>)
     = [\<lparr>ctitle = ''Intro'',
         cblocks = [TextBlock ''Intro'', TextBlock ''Uno'', TextBlock ''Dos'']\<rparr>]"
  by (simp add: load_eval doc0_def py_strip_def py_isspace_def)

lemma load_doc2:
  "chapters (load id ''libro'' \<lparr>dc_title = [], dc_creator = [], get_items = [EpubHtml doc2]\<rparr>)
     = [\<lparr>ctitle = ''HelloWorld'',
         cblocks = [TextBlock ''Hello World'', TextBlock ''Uno'', TextBlock ''Dos tres'']\<rparr>]"
  by (simp add: load_eval doc2_def html1_def head1_def bd1_def py_strip_def py_isspace_def join.simps)

lemma split_first_fragment: "split_first c (p @ c # frag) = split_first c p"
  unfolding split_first_def by (induction p) simp_all

lemma normalize_src_fragment:
  "normalize_src (p @ CHR ''#'' # frag) = normalize_src p"
  by (simp add: normalize_src_def split_first_fragment)

lemma normalize_src_dot_slash: "normalize_src (''./'' @ p) = normalize_src p"
  by (simp add: normalize_src_def split_first_def lstrip_def)

lemma normalize_src_dotdot_slash: "normalize_src (''../'' @ p) = normalize_src p"
  by (simp add: normalize_src_def split_first_def lstrip_def)

lemma replace_dd_Nil: "str_replace ''../'' [] [] = []"
  by (simp add: str_replace.simps)

lemma replace_dd_hit: "str_replace ''../'' [] (''../'' @ s) = str_replace ''../'' [] s"
  by (subst str_replace.simps) simp

lemma replace_dd_miss:
  assumes "take 3 (x # xs) \<noteq> ''../''"
  shows "str_replace ''../'' [] (x # xs) = x # str_replace ''../'' [] xs"
proof -
  have l: "length ''../'' = 3" by simp
  show ?thesis
    by (subst str_replace.simps) (simp only: l assms list.distinct if_False list.sel)
qed

lemma take3_append_miss:
  assumes "take 3 a \<noteq> ''../''" and "a \<noteq> []"
  shows "take 3 (a @ ''../'' @ b) \<noteq> ''../''"
proof (cases a)
  case Nil
  then show ?thesis using assms by simp
next
  case a1: (Cons x xs)
  show ?thesis
  proof (cases xs)
    case Nil
    then show ?thesis using a1 by simp
  next
    case a2: (Cons y ys)
    show ?thesis
    proof (cases ys)
      case Nil
      then show ?thesis using a1 a2 by simp
    next
      case (Cons z zs)
      then show ?thesis using a1 a2 assms by simp
    qed
  qed
qed

lemma replace_dd_append:
  "str_replace ''../'' [] (a @ ''../'' @ b)
     = str_replace ''../'' [] a @ str_replace ''../'' [] b"
proof (induction a rule: length_induct)
  case (1 a)
  show ?case
  proof (cases a)
    case Nil
    then show ?thesis using replace_dd_hit [of b] by (simp add: replace_dd_Nil)
  next
    case (Cons x xs)
    show ?thesis
    proof (cases "take 3 a = ''../''")
      case True
      then have a: "a = ''../'' @ drop 3 a"
        by (metis append_take_drop_id)
      have "length (drop 3 a) < length a" using Cons by simp
      then have IH: "str_replace ''../'' [] (drop 3 a @ ''../'' @ b)
          = str_replace ''../'' [] (drop 3 a) @ str_replace ''../'' [] b"
        using 1 by blast
      have "str_replace ''../'' [] (a @ ''../'' @ b)
          = str_replace ''../'' [] (''../'' @ (drop 3 a @ ''../'' @ b))"
        by (subst a) simp
      also have "\<dots> = str_replace ''../'' [] (drop 3 a @ ''../'' @ b)"
        by (rule replace_dd_hit)
      also have "\<dots> = str_replace ''../'' [] (drop 3 a) @ str_replace ''../'' [] b"
        by (rule IH)
      also have "str_replace ''../'' [] (drop 3 a) = str_replace ''../'' [] a"
        by (subst (2) a) (simp only: replace_dd_hit)
      finally show ?thesis .
    next
      case False
      have m1: "take 3 (x # (xs @ ''../'' @ b)) \<noteq> ''../''"
        using take3_append_miss [OF False, of b] Cons by simp
      have m2: "take 3 (x # xs) \<noteq> ''../''" using False Cons by simp
      have IH: "str_replace ''../'' [] (xs @ ''../'' @ b)
          = str_replace ''../'' [] xs @ str_replace ''../'' [] b"
        using 1 Cons by simp
      have "str_replace ''../'' [] (a @ ''../'' @ b)
          = x # str_replace ''../'' [] (xs @ ''../'' @ b)"
        using replace_dd_miss [OF m1] Cons by simp
      also have "\<dots> = (x # str_replace ''../'' [] xs) @ str_replace ''../'' [] b"
        using IH by simp
      also have "x # str_replace ''../'' [] xs = str_replace ''../'' [] a"
        using replace_dd_miss [OF m2] Cons by simp
      finally show ?thesis .
    qed
  qed
qed

lemma find_append_first:
  assumes "\<forall>x \<in> set xs. \<not> P x" and "P y"
  shows "find P (xs @ y # ys) = Some y"
  using assms by (induction xs) simp_all

lemma resolve_direct:
  "key \<in> fst ` set images \<Longrightarrow> resolve_key images key = key"
  by (simp add: resolve_key_def)

lemma resolve_basename:
  assumes "key \<notin> fst ` set images"
    and "images = pre @ (k, v) # post"
    and "basename k = basename key"
    and "\<forall>x \<in> set pre. basename (fst x) \<noteq> basename key"
  shows "resolve_key images key = k" and "map_of images k = Some v"
proof -
  have "find (\<lambda>k. basename k = basename key) (map fst pre @ k # map fst post) = Some k"
    using assms(3,4) by (intro find_append_first) auto
  then show "resolve_key images key = k"
    using assms(1,2) by (simp add: resolve_key_def image_Un)
  have "k \<notin> fst ` set pre" using assms(3,4) by auto
  then have "map_of pre k = None" by (simp add: map_of_eq_None_iff)
  then show "map_of images k = Some v"
    unfolding assms(2) by (simp add: map_add_def)
qed

lemma resolve_fails:
  assumes "key \<notin> fst ` set images"
    and "\<forall>x \<in> set images. basename (fst x) \<noteq> basename key"
  shows "resolve_key images key = key" and "map_of images (resolve_key images key) = None"
proof -
  have "find (\<lambda>k. basename k = basename key) (map fst images) = None"
    using assms(2) by (simp add: find_None_iff)
  then show r: "resolve_key images key = key"
    by (simp add: resolve_key_def)
  show "map_of images (resolve_key images key) = None"
    unfolding r using assms(1) by (simp add: map_of_eq_None_iff)
qed

lemma img_step_img:
  assumes "map_of attrs ''src'' = Some src" and "src \<noteq> []"
  shows "img_step b64 images blks (Tag ''img'' attrs cs) =
     (case map_of images (resolve_key images (normalize_src src)) of
        Some c \<Rightarrow> blks @ [ImageBlock (b64 c)
                          (case map_of attrs ''alt'' of Some a \<Rightarrow> a | None \<Rightarrow> [])]
      | None \<Rightarrow> blks)"
  using assms by (simp add: img_step_def Let_def split: option.splits)

lemma text_step_img: "text_step blks (Tag ''img'' attrs cs) = blks"
  by (simp add: text_step_def)

lemma elem_step_append:
  "elem_step b64 images blks e = blks @ elem_step b64 images [] e"
  by (auto simp: elem_step_def text_step_def img_step_def Let_def split: option.splits)

lemma foldl_elem_step:
  "foldl (elem_step b64 images) blks es
     = blks @ concat (map (elem_step b64 images []) es)"
proof (induction es arbitrary: blks)
  case Nil
  show ?case by simp
next
  case (Cons e es)
  show ?case
    by (simp add: Cons [of "elem_step b64 images blks e"])
       (simp add: elem_step_append [of b64 images blks e])
qed

lemma extract_blocks_concat:
  "extract_blocks b64 images bd = concat (map (elem_step b64 images []) (descendants bd))"
  by (simp add: extract_blocks_def foldl_elem_step)


lemma extract_skip:
  assumes "descendants bd = es1 @ e # es2" and "elem_step b64 images [] e = []"
  shows "extract_blocks b64 images bd
     = foldl (elem_step b64 images) [] es1 @ foldl (elem_step b64 images) [] es2"
proof -
  have "extract_blocks b64 images bd
      = concat (map (elem_step b64 images []) (es1 @ e # es2))"
    by (simp only: extract_blocks_concat assms(1))
  also have "\<dots> = concat (map (elem_step b64 images []) es1)
      @ concat (map (elem_step b64 images []) es2)"
    by (simp add: assms(2))
  finally show ?thesis
    by (simp add: foldl_elem_step [of b64 images "[]"])
qed

lemma normalize_src_examples:
  "normalize_src ''./cover.jpg#top'' = ''cover.jpg''"
  "normalize_src ''../images/a.png'' = ''images/a.png''"
  "normalize_src ''missing.png'' = ''missing.png''"
  by (simp_all add: normalize_src_def split_first_def lstrip_def str_replace.simps)


lemma extract_bd0: "extract_blocks id images0 bd0 = [TextBlock ''Uno'', TextBlock ''Dos'']"
  by (simp add: extract_blocks_def bd0_def images0_def elem_step_def text_step_def img_step_def
      get_text_def py_strip_def py_isspace_def normalize_src_examples resolve_key_def
      basename_def)

section \<open>Image references\<close>

lemma replace_dd_id: "no_dotdot p \<Longrightarrow> str_replace ''../'' [] p = p"
proof (induction p)
  case Nil
  show ?case by (rule replace_dd_Nil)
next
  case (Cons x xs)
  then have m: "take 3 (x # xs) \<noteq> ''../''" and n: "no_dotdot xs" by simp_all
  show ?case using replace_dd_miss [OF m] Cons.IH [OF n] by simp
qed

lemma lstrip_prefix:
  assumes "set ds \<subseteq> {''./'', ''../''}" and "p \<noteq> [] \<longrightarrow> hd p \<noteq> CHR ''.'' \<and> hd p \<noteq> CHR ''/''"
  shows "lstrip ''./'' (concat ds @ p) = p"
proof -
  have "\<And>x. x \<in> set (concat ds) \<Longrightarrow> x \<in> set ''./''"
    using assms(1) by auto
  then have "lstrip ''./'' (concat ds @ p) = dropWhile (\<lambda>x. x \<in> set ''./'') p"
    unfolding lstrip_def by (rule dropWhile_append2)
  also have "\<dots> = p" using assms(2) by (cases p) auto
  finally show ?thesis .
qed

lemma split_first_all: "c \<notin> set s \<Longrightarrow> split_first c s = s"
  by (auto simp: split_first_def takeWhile_eq_all_conv)

lemma normalize_src_plain:
  assumes ds: "set ds \<subseteq> {''./'', ''../''}"
    and h: "p \<noteq> [] \<longrightarrow> hd p \<noteq> CHR ''.'' \<and> hd p \<noteq> CHR ''/''"
    and n: "no_dotdot p" and f: "CHR ''#'' \<notin> set p"
  shows "normalize_src (concat ds @ p) = p"
    and "normalize_src (concat ds @ p @ CHR ''#'' # frag) = p"
proof -
  have "CHR ''#'' \<notin> set (concat ds @ p)" using ds f by auto
  then have s: "split_first CHR ''#'' (concat ds @ p) = concat ds @ p"
    by (rule split_first_all)
  show a: "normalize_src (concat ds @ p) = p"
    using lstrip_prefix [OF ds h] replace_dd_id [OF n]
    by (simp add: normalize_src_def s)
  show "normalize_src (concat ds @ p @ CHR ''#'' # frag) = p"
    using normalize_src_fragment [of "concat ds @ p" frag] a by simp
qed

lemma normalize_src_explicit:
  "normalize_src src =
     str_replace ''../'' []
       (dropWhile (\<lambda>c. c = CHR ''.'' \<or> c = CHR ''/'') (takeWhile (\<lambda>c. c \<noteq> CHR ''#'') src))"
proof -
  have "(\<lambda>x. x \<in> set ''./'') = (\<lambda>c. c = CHR ''.'' \<or> c = CHR ''/'')" by auto
  then show ?thesis by (simp add: normalize_src_def split_first_def lstrip_def)
qed

lemma img_step_no_src:
  "map_of attrs ''src'' = None \<or> map_of attrs ''src'' = Some [] \<Longrightarrow>
   elem_step b64 images blks (Tag ''img'' attrs cs) = blks"
  by (auto simp: elem_step_def text_step_img img_step_def)

text \<open>
  C5, as the code has it. For an \<^verbatim>\<open>img\<close> element, the normalized path is the part of
  \<^verbatim>\<open>src\<close> before the first \<^verbatim>\<open>#\<close>, without its leading \<^verbatim>\<open>.\<close> and \<^verbatim>\<open>/\<close> characters,
  with the occurrences of \<^verbatim>\<open>../\<close> deleted from left to right. So a reference made of
  \<^verbatim>\<open>./\<close> and \<^verbatim>\<open>../\<close> segments, a path that does not begin with \<^verbatim>\<open>.\<close> or \<^verbatim>\<open>/\<close> and
  holds no \<^verbatim>\<open>../\<close>, and possibly a fragment, is normalized to that path; a fragment
  suffix, a leading \<^verbatim>\<open>./\<close> or a leading \<^verbatim>\<open>../\<close> never changes the normalized path; and
  a \<^verbatim>\<open>../\<close> inside is deleted with nothing else. An element without \<^verbatim>\<open>src\<close> or with
  an empty one yields nothing. Otherwise: when the normalized path is a key of the
  resource map, the element yields the image block of that resource. When it is not, the
  first key in the map's order with the same base name is taken, and the element yields
  that resource's image block. When no key has that base name either, the element yields
  nothing, and the blocks of the document are those of the elements before it followed by
  those of the elements after it.
\<close>

theorem image_reference_resolution:
  "normalize_src src =
     str_replace ''../'' []
       (dropWhile (\<lambda>x. x = CHR ''.'' \<or> x = CHR ''/'') (takeWhile (\<lambda>x. x \<noteq> CHR ''#'') src)) \<and>
   (set ds \<subseteq> {''./'', ''../''} \<and> (p \<noteq> [] \<longrightarrow> hd p \<noteq> CHR ''.'' \<and> hd p \<noteq> CHR ''/'') \<and>
    no_dotdot p \<and> CHR ''#'' \<notin> set p \<longrightarrow>
      normalize_src (concat ds @ p) = p \<and>
      normalize_src (concat ds @ p @ CHR ''#'' # frag) = p) \<and>
   normalize_src (q @ CHR ''#'' # frag) = normalize_src q \<and>
   normalize_src (''./'' @ q) = normalize_src q \<and>
   normalize_src (''../'' @ q) = normalize_src q \<and>
   str_replace ''../'' [] (a @ ''../'' @ b)
     = str_replace ''../'' [] a @ str_replace ''../'' [] b \<and>
   (map_of attrs ''src'' = None \<or> map_of attrs ''src'' = Some [] \<longrightarrow>
      elem_step b64 images blks (Tag ''img'' attrs cs) = blks) \<and>
   (map_of attrs ''src'' = Some src \<and> src \<noteq> [] \<longrightarrow>
      (map_of images (normalize_src src) = Some c \<longrightarrow>
         resolve_key images (normalize_src src) = normalize_src src \<and>
         elem_step b64 images blks (Tag ''img'' attrs cs) =
           blks @ [ImageBlock (b64 c)
                    (case map_of attrs ''alt'' of Some al \<Rightarrow> al | None \<Rightarrow> [])]) \<and>
      (normalize_src src \<notin> fst ` set images \<and> images = pre @ (k, v) # post \<and>
       basename k = basename (normalize_src src) \<and>
       (\<forall>x \<in> set pre. basename (fst x) \<noteq> basename (normalize_src src)) \<longrightarrow>
         resolve_key images (normalize_src src) = k \<and>
         elem_step b64 images blks (Tag ''img'' attrs cs) =
           blks @ [ImageBlock (b64 v)
                    (case map_of attrs ''alt'' of Some al \<Rightarrow> al | None \<Rightarrow> [])]) \<and>
      (normalize_src src \<notin> fst ` set images \<and>
       (\<forall>x \<in> set images. basename (fst x) \<noteq> basename (normalize_src src)) \<longrightarrow>
         elem_step b64 images blks (Tag ''img'' attrs cs) = blks \<and>
         (descendants bd = es1 @ Tag ''img'' attrs cs # es2 \<longrightarrow>
            extract_blocks b64 images bd
              = foldl (elem_step b64 images) [] es1 @ foldl (elem_step b64 images) [] es2)))"
proof (intro conjI impI)
  show "normalize_src src =
     str_replace ''../'' []
       (dropWhile (\<lambda>x. x = CHR ''.'' \<or> x = CHR ''/'') (takeWhile (\<lambda>x. x \<noteq> CHR ''#'') src))"
    by (rule normalize_src_explicit)
  show "normalize_src (q @ CHR ''#'' # frag) = normalize_src q"
    by (rule normalize_src_fragment)
  show "normalize_src (''./'' @ q) = normalize_src q"
    by (rule normalize_src_dot_slash)
  show "normalize_src (''../'' @ q) = normalize_src q"
    by (rule normalize_src_dotdot_slash)
  show "str_replace ''../'' [] (a @ ''../'' @ b)
     = str_replace ''../'' [] a @ str_replace ''../'' [] b"
    by (rule replace_dd_append)
next
  assume "set ds \<subseteq> {''./'', ''../''} \<and> (p \<noteq> [] \<longrightarrow> hd p \<noteq> CHR ''.'' \<and> hd p \<noteq> CHR ''/'') \<and>
    no_dotdot p \<and> CHR ''#'' \<notin> set p"
  then show "normalize_src (concat ds @ p) = p"
    and "normalize_src (concat ds @ p @ CHR ''#'' # frag) = p"
    using normalize_src_plain(1) [of ds p] normalize_src_plain(2) [of ds p frag] by blast+
next
  assume "map_of attrs ''src'' = None \<or> map_of attrs ''src'' = Some []"
  then show "elem_step b64 images blks (Tag ''img'' attrs cs) = blks"
    by (rule img_step_no_src)
next
  assume s: "map_of attrs ''src'' = Some src \<and> src \<noteq> []"
    and c: "map_of images (normalize_src src) = Some c"
  have "normalize_src src \<in> fst ` set images"
    using c by (rule map_of_SomeD [THEN imageI [of _ _ fst], simplified])
  then show r: "resolve_key images (normalize_src src) = normalize_src src"
    by (rule resolve_direct)
  show "elem_step b64 images blks (Tag ''img'' attrs cs) =
           blks @ [ImageBlock (b64 c)
                    (case map_of attrs ''alt'' of Some al \<Rightarrow> al | None \<Rightarrow> [])]"
    using s c r by (simp add: elem_step_def text_step_img img_step_img)
next
  assume s: "map_of attrs ''src'' = Some src \<and> src \<noteq> []"
    and f: "normalize_src src \<notin> fst ` set images \<and> images = pre @ (k, v) # post \<and>
       basename k = basename (normalize_src src) \<and>
       (\<forall>x \<in> set pre. basename (fst x) \<noteq> basename (normalize_src src))"
  from f have r: "resolve_key images (normalize_src src) = k"
    and m: "map_of images k = Some v"
    using resolve_basename [of "normalize_src src" images pre k v post] by blast+
  show "resolve_key images (normalize_src src) = k" by (rule r)
  show "elem_step b64 images blks (Tag ''img'' attrs cs) =
           blks @ [ImageBlock (b64 v)
                    (case map_of attrs ''alt'' of Some al \<Rightarrow> al | None \<Rightarrow> [])]"
    using s r m by (simp add: elem_step_def text_step_img img_step_img)
next
  assume s: "map_of attrs ''src'' = Some src \<and> src \<noteq> []"
    and f: "normalize_src src \<notin> fst ` set images \<and>
       (\<forall>x \<in> set images. basename (fst x) \<noteq> basename (normalize_src src))"
  from f have n: "map_of images (resolve_key images (normalize_src src)) = None"
    using resolve_fails [of "normalize_src src" images] by blast
  show d: "elem_step b64 images blks (Tag ''img'' attrs cs) = blks" for blks
    using s n by (simp add: elem_step_def text_step_img img_step_img)
  assume "descendants bd = es1 @ Tag ''img'' attrs cs # es2"
  then show "extract_blocks b64 images bd
              = foldl (elem_step b64 images) [] es1 @ foldl (elem_step b64 images) [] es2"
    by (rule extract_skip) (rule d)
qed


text \<open>
  A \<^verbatim>\<open>../\<close> segment inside a reference is not collapsed with the segment before it:
  \<^verbatim>\<open>a/../OEBPS/other/a.png\<close> names the resource \<^verbatim>\<open>OEBPS/other/a.png\<close>, a key of the
  map, but the loader looks up \<^verbatim>\<open>a/OEBPS/other/a.png\<close>, falls back to the base name and
  takes \<^verbatim>\<open>OEBPS/img/a.png\<close>. And more than a leading \<^verbatim>\<open>./\<close> is stripped: the reference
  \<^verbatim>\<open>.a.png\<close> to the resource of that name is looked up as \<^verbatim>\<open>a.png\<close> and dropped.
\<close>

theorem image_reference_counterexample:
  "spec_normalize_src ''a/../OEBPS/other/a.png'' = ''OEBPS/other/a.png'' \<and>
   map_of images0 ''OEBPS/other/a.png'' = Some ''BBB'' \<and>
   normalize_src ''a/../OEBPS/other/a.png'' = ''a/OEBPS/other/a.png'' \<and>
   elem_step id images0 [] (Tag ''img'' [(''src'', ''a/../OEBPS/other/a.png'')] [])
     = [ImageBlock ''AAA'' []] \<and>
   spec_normalize_src ''.a.png'' = ''.a.png'' \<and>
   map_of [(''.a.png'', ''DDD'')] ''.a.png'' = Some ''DDD'' \<and>
   normalize_src ''.a.png'' = ''a.png'' \<and>
   elem_step id [(''.a.png'', ''DDD'')] [] (Tag ''img'' [(''src'', ''.a.png'')] []) = []"
  by (simp add: spec_normalize_src_def normalize_src_def split_first_def lstrip_def
      str_replace.simps images0_def elem_step_def text_step_def img_step_def resolve_key_def
      basename_def Let_def)

theorem image_reference_resolution_witness:
  "map_of [(''src'', ''./cover.jpg#top''), (''alt'', ''Tapa'')] ''src'' = Some ''./cover.jpg#top'' \<and>
   ''./cover.jpg#top'' \<noteq> [] \<and>
   map_of images0 (normalize_src ''./cover.jpg#top'') = Some ''CCC'' \<and>
   elem_step id images0 []
     (Tag ''img'' [(''src'', ''./cover.jpg#top''), (''alt'', ''Tapa'')] [])
     = [ImageBlock ''CCC'' ''Tapa''] \<and>
   normalize_src ''../images/a.png'' \<notin> fst ` set images0 \<and>
   images0 = [(''cover.jpg'', ''CCC'')] @ (''OEBPS/img/a.png'', ''AAA'')
               # [(''OEBPS/other/a.png'', ''BBB'')] \<and>
   basename ''OEBPS/img/a.png'' = basename (normalize_src ''../images/a.png'') \<and>
   basename ''cover.jpg'' \<noteq> basename (normalize_src ''../images/a.png'') \<and>
   resolve_key images0 (normalize_src ''../images/a.png'') = ''OEBPS/img/a.png'' \<and>
   elem_step id images0 [] (Tag ''img'' [(''src'', ''../images/a.png'')] [])
     = [ImageBlock ''AAA'' []] \<and>
   normalize_src ''missing.png'' \<notin> fst ` set images0 \<and>
   filter (\<lambda>x. basename (fst x) = basename (normalize_src ''missing.png'')) images0 = [] \<and>
   descendants bd0 =
     [Tag ''p'' [] [NavigableString ''Uno''], NavigableString ''Uno'']
     @ Tag ''img'' [(''src'', ''missing.png'')] []
     # [Tag ''p'' [] [NavigableString ''Dos''], NavigableString ''Dos''] \<and>
   extract_blocks id images0 bd0 = [TextBlock ''Uno'', TextBlock ''Dos''] \<and>
   set [''./'', ''../''] \<subseteq> {''./'', ''../''} \<and>
   ''images/a.png'' \<noteq> [] \<and> hd ''images/a.png'' \<noteq> CHR ''.'' \<and> hd ''images/a.png'' \<noteq> CHR ''/'' \<and>
   no_dotdot ''images/a.png'' \<and> CHR ''#'' \<notin> set ''images/a.png'' \<and>
   normalize_src ''./../images/a.png'' = ''images/a.png'' \<and>
   normalize_src ''./../images/a.png#top'' = ''images/a.png'' \<and>
   map_of [(''alt'', ''x'')] ''src'' = None \<and>
   elem_step id images0 [TextBlock ''Uno''] (Tag ''img'' [(''alt'', ''x'')] []) = [TextBlock ''Uno'']"
  using
    image_reference_resolution [where ds = "[''./'', ''../'']" and p = "''images/a.png''"
        and frag = "''top''" and q = "''a.png''" and a = "''a/''" and b = "''b''"
        and attrs = "[(''src'', ''./cover.jpg#top''), (''alt'', ''Tapa'')]"
        and src = "''./cover.jpg#top''" and images = images0 and c = "''CCC''"
        and ?b64.0 = id and blks = "[]" and cs = "[]"
        and pre = "[]" and k = "[]" and v = "[]" and post = "[]"
        and bd = bd0 and ?es1.0 = "[]" and ?es2.0 = "[]"]
    image_reference_resolution [where ds = "[''./'', ''../'']" and p = "''images/a.png''"
        and frag = "''top''" and q = "''a.png''" and a = "''a/''" and b = "''b''"
        and attrs = "[(''src'', ''../images/a.png'')]"
        and src = "''../images/a.png''" and images = images0 and c = "[]"
        and ?b64.0 = id and blks = "[]" and cs = "[]"
        and pre = "[(''cover.jpg'', ''CCC'')]" and k = "''OEBPS/img/a.png''" and v = "''AAA''"
        and post = "[(''OEBPS/other/a.png'', ''BBB'')]"
        and bd = bd0 and ?es1.0 = "[]" and ?es2.0 = "[]"]
    image_reference_resolution [where ds = "[''./'', ''../'']" and p = "''images/a.png''"
        and frag = "''top''" and q = "''a.png''" and a = "''a/''" and b = "''b''"
        and attrs = "[(''src'', ''missing.png'')]"
        and src = "''missing.png''" and images = images0 and c = "[]"
        and ?b64.0 = id and blks = "[]" and cs = "[]"
        and pre = "[]" and k = "[]" and v = "[]" and post = "[]"
        and bd = bd0
        and ?es1.0 = "[Tag ''p'' [] [NavigableString ''Uno''], NavigableString ''Uno'']"
        and ?es2.0 = "[Tag ''p'' [] [NavigableString ''Dos''], NavigableString ''Dos'']"]
  by (simp add: normalize_src_examples images0_def bd0_def basename_def
      elem_step_def text_step_def img_step_def get_text_def py_strip_def py_isspace_def)


section \<open>Headings and chapters\<close>

lemma descendants_nodes_of: "descendants (Tag n a cs) = nodes_of cs"
  by (simp add: nodes_of_def)

lemma nodes_of_append: "nodes_of (xs @ ys) = nodes_of xs @ nodes_of ys"
  by (simp add: nodes_of_def)

lemma nodes_of_Cons: "nodes_of (c # cs) = c # descendants c @ nodes_of cs"
  by (simp add: nodes_of_def)

lemma nodes_of_Nil: "nodes_of [] = []"
  by (simp add: nodes_of_def)

lemma descendants_string: "node_name e = None \<Longrightarrow> descendants e = []"
  by (cases e) simp_all

lemma nodes_of_strings: "strings_only w \<Longrightarrow> nodes_of w = w"
  by (induction w) (simp_all add: strings_only_def nodes_of_Nil nodes_of_Cons descendants_string)

lemma has_name_string: "node_name e = None \<Longrightarrow> \<not> has_name names e"
  by (simp add: has_name_def)

lemma has_name_subset:
  "\<not> has_name names e \<Longrightarrow> set names' \<subseteq> set names \<Longrightarrow> \<not> has_name names' e"
  by (auto simp: has_name_def split: option.splits)

lemma elem_step_other:
  "\<not> has_name [''p'', ''h1'', ''h2'', ''h3'', ''li'', ''img''] e \<Longrightarrow> elem_step b64 images [] e = []"
  by (cases e) (auto simp: has_name_def elem_step_def text_step_def img_step_def)

lemma steps_other:
  "list_all (\<lambda>e. \<not> has_name [''p'', ''h1'', ''h2'', ''h3'', ''li'', ''img''] e) es \<Longrightarrow>
   concat (map (elem_step b64 images []) es) = []"
  by (induction es) (simp_all add: elem_step_other)

lemma steps_strings: "strings_only w \<Longrightarrow> concat (map (elem_step b64 images []) w) = []"
  by (rule steps_other) (simp add: strings_only_def list_all_iff has_name_string)

lemma steps_inline: "inline_only cs \<Longrightarrow> concat (map (elem_step b64 images []) (nodes_of cs)) = []"
  by (rule steps_other) (simp add: inline_only_def)

lemma elem_step_text:
  assumes "n \<in> set [''p'', ''h1'', ''h2'', ''h3'', ''li'']" and "get_text '' '' (Tag n a cs) \<noteq> []"
  shows "elem_step b64 images [] (Tag n a cs) = [TextBlock (get_text '' '' (Tag n a cs))]"
  using assms by (auto simp: elem_step_def text_step_def img_step_def Let_def)

lemma steps_text_element:
  assumes "n \<in> set [''p'', ''h1'', ''h2'', ''h3'', ''li'']" and "get_text '' '' (Tag n a cs) \<noteq> []"
    and "inline_only cs"
  shows "concat (map (elem_step b64 images []) (nodes_of [Tag n a cs]))
     = [TextBlock (get_text '' '' (Tag n a cs))]"
  using elem_step_text [OF assms(1,2)] steps_inline [OF assms(3)]
  by (simp add: nodes_of_Cons nodes_of_Nil descendants_nodes_of del: descendants.simps)

lemma inline_only_append: "inline_only (xs @ ys) \<longleftrightarrow> inline_only xs \<and> inline_only ys"
  by (simp add: inline_only_def nodes_of_append)

lemma strings_only_append: "strings_only (xs @ ys) \<longleftrightarrow> strings_only xs \<and> strings_only ys"
  by (simp add: strings_only_def)

lemma scenario_blocks:
  assumes w: "strings_only (w0 @ w1 @ w2 @ w3)"
    and i: "inline_only (hc @ pc1 @ pc2)"
    and t: "get_text '' '' (Tag ''h2'' a0 hc) \<noteq> []" "get_text '' '' (Tag ''p'' a1 pc1) \<noteq> []"
      "get_text '' '' (Tag ''p'' a2 pc2) \<noteq> []"
  shows "extract_blocks b64 images
       (Tag ''body'' ba (w0 @ [Tag ''h2'' a0 hc] @ w1 @ [Tag ''p'' a1 pc1] @ w2 @
                        [Tag ''p'' a2 pc2] @ w3))
     = [TextBlock (get_text '' '' (Tag ''h2'' a0 hc)), TextBlock (get_text '' '' (Tag ''p'' a1 pc1)),
        TextBlock (get_text '' '' (Tag ''p'' a2 pc2))]"
proof -
  have ws: "strings_only w0" "strings_only w1" "strings_only w2" "strings_only w3"
    using w by (simp_all add: strings_only_append)
  have ins: "inline_only hc" "inline_only pc1" "inline_only pc2"
    using i by (simp_all add: inline_only_append)
  have s: "concat (map (elem_step b64 images []) (nodes_of w)) = []" if "strings_only w" for w
    using that by (simp add: nodes_of_strings steps_strings)
  have e1: "concat (map (elem_step b64 images []) (nodes_of [Tag ''h2'' a0 hc]))
      = [TextBlock (get_text '' '' (Tag ''h2'' a0 hc))]"
    by (rule steps_text_element) (simp_all add: t ins)
  have e2: "concat (map (elem_step b64 images []) (nodes_of [Tag ''p'' a1 pc1]))
      = [TextBlock (get_text '' '' (Tag ''p'' a1 pc1))]"
    by (rule steps_text_element) (simp_all add: t ins)
  have e3: "concat (map (elem_step b64 images []) (nodes_of [Tag ''p'' a2 pc2]))
      = [TextBlock (get_text '' '' (Tag ''p'' a2 pc2))]"
    by (rule steps_text_element) (simp_all add: t ins)
  show ?thesis
    unfolding extract_blocks_concat descendants_nodes_of nodes_of_append map_append concat_append
    by (simp only: s [OF ws(1)] s [OF ws(2)] s [OF ws(3)] s [OF ws(4)] e1 e2 e3) simp
qed

lemma find_append:
  "find P (xs @ ys) = (case find P xs of Some x \<Rightarrow> Some x | None \<Rightarrow> find P ys)"
  by (induction xs) simp_all

lemma find_none: "list_all (\<lambda>e. \<not> P e) es \<Longrightarrow> find P es = None"
  by (simp add: find_None_iff list_all_iff)

lemma body_first:
  assumes d: "descendants soup = pre @ bd # descendants bd @ post"
    and b: "has_name [''body''] bd"
    and p: "list_all (\<lambda>e. \<not> has_name [''body'', ''h1'', ''h2'', ''h3''] e) pre"
    and q: "list_all (\<lambda>e. \<not> has_name [''h1'', ''h2'', ''h3''] e) post"
  shows "body soup = Some bd"
    and "find_tag [''h1'', ''h2'', ''h3''] soup = find_tag [''h1'', ''h2'', ''h3''] bd"
proof -
  have p1: "list_all (\<lambda>e. \<not> has_name [''body''] e) pre"
    and p2: "list_all (\<lambda>e. \<not> has_name [''h1'', ''h2'', ''h3''] e) pre"
    using p by (auto simp: list_all_iff has_name_def split: option.splits)
  have nb: "\<not> has_name [''h1'', ''h2'', ''h3''] bd"
    using b by (auto simp: has_name_def split: option.splits)
  show "body soup = Some bd"
    using b find_none [OF p1] by (simp add: body_def find_tag_def d find_append)
  show "find_tag [''h1'', ''h2'', ''h3''] soup = find_tag [''h1'', ''h2'', ''h3''] bd"
    using nb find_none [OF p2] find_none [OF q]
    by (simp add: find_tag_def d find_append split: option.splits)
qed

lemma scenario_heading:
  assumes "strings_only w0"
  shows "find_tag [''h1'', ''h2'', ''h3''] (Tag ''body'' ba (w0 @ [Tag ''h2'' a0 hc] @ rest))
     = Some (Tag ''h2'' a0 hc)"
proof -
  have "list_all (\<lambda>e. \<not> has_name [''h1'', ''h2'', ''h3''] e) w0"
    using assms by (simp add: strings_only_def list_all_iff has_name_string)
  then have "find (has_name [''h1'', ''h2'', ''h3'']) w0 = None" by (rule find_none)
  then show ?thesis
    by (simp add: find_tag_def descendants_nodes_of nodes_of_append nodes_of_strings [OF assms]
        nodes_of_Cons find_append has_name_def del: descendants.simps)
qed

lemma get_text_single: "get_text sep (Tag n a [NavigableString s]) = py_strip s"
  by (simp add: get_text_def)

text \<open>
  C6, as the code has it. In a document whose first \<^verbatim>\<open>body\<close> element comes before every
  heading and after whose body no heading stands (a document as the package library
  delivers it: \<^verbatim>\<open>html\<close> with a \<^verbatim>\<open>head\<close> and a \<^verbatim>\<open>body\<close>), the chapter title is
  the text of the first element named \<^verbatim>\<open>h1\<close>, \<^verbatim>\<open>h2\<close> or \<^verbatim>\<open>h3\<close> in the body, its
  strings stripped and joined without a separator, and the book title when the body has no
  heading. When the body holds an \<^verbatim>\<open>h2\<close> heading followed by two paragraphs, with only
  string nodes between them and only inline content (no text element and no image) in
  them, each with text, the document yields exactly one chapter: its title is the heading's
  text, and its blocks are the texts of the heading and of the two paragraphs in document
  order, each the element's strings stripped and joined by single spaces. A heading is a
  text element like a paragraph. For an element whose only child is a string, both texts
  are the stripped string.
\<close>

theorem heading_chapter:
  "(descendants soup = pre @ bd # descendants bd @ post \<and> has_name [''body''] bd \<and>
    list_all (\<lambda>e. \<not> has_name [''body'', ''h1'', ''h2'', ''h3''] e) pre \<and>
    list_all (\<lambda>e. \<not> has_name [''h1'', ''h2'', ''h3''] e) post \<longrightarrow>
      body soup = Some bd \<and>
      chap_title_of bt soup =
        (case find_tag [''h1'', ''h2'', ''h3''] bd of
           Some heading \<Rightarrow> get_text [] heading
         | None \<Rightarrow> bt) \<and>
      (bd = Tag ''body'' ba (w0 @ [Tag ''h2'' a0 hc] @ w1 @ [Tag ''p'' a1 pc1] @ w2 @
                             [Tag ''p'' a2 pc2] @ w3) \<and>
       strings_only (w0 @ w1 @ w2 @ w3) \<and> inline_only (hc @ pc1 @ pc2) \<and>
       get_text '' '' (Tag ''h2'' a0 hc) \<noteq> [] \<and> get_text '' '' (Tag ''p'' a1 pc1) \<noteq> [] \<and>
       get_text '' '' (Tag ''p'' a2 pc2) \<noteq> [] \<longrightarrow>
         load_item b64 bt images chs (EpubHtml soup) =
           chs @ [\<lparr>ctitle = get_text [] (Tag ''h2'' a0 hc),
                   cblocks = [TextBlock (get_text '' '' (Tag ''h2'' a0 hc)),
                              TextBlock (get_text '' '' (Tag ''p'' a1 pc1)),
                              TextBlock (get_text '' '' (Tag ''p'' a2 pc2))]\<rparr>])) \<and>
   get_text sep (Tag n a [NavigableString s]) = py_strip s"
proof (intro conjI impI)
  show "get_text sep (Tag n a [NavigableString s]) = py_strip s" by (rule get_text_single)
next
  assume h: "descendants soup = pre @ bd # descendants bd @ post \<and> has_name [''body''] bd \<and>
    list_all (\<lambda>e. \<not> has_name [''body'', ''h1'', ''h2'', ''h3''] e) pre \<and>
    list_all (\<lambda>e. \<not> has_name [''h1'', ''h2'', ''h3''] e) post"
  then have b: "body soup = Some bd"
    and f: "find_tag [''h1'', ''h2'', ''h3''] soup = find_tag [''h1'', ''h2'', ''h3''] bd"
    using body_first [of soup pre bd post] by simp_all
  show "body soup = Some bd" by (rule b)
  show t: "chap_title_of bt soup =
        (case find_tag [''h1'', ''h2'', ''h3''] bd of
           Some heading \<Rightarrow> get_text [] heading
         | None \<Rightarrow> bt)"
    by (simp add: chap_title_of_def f)
  assume s: "bd = Tag ''body'' ba (w0 @ [Tag ''h2'' a0 hc] @ w1 @ [Tag ''p'' a1 pc1] @ w2 @
                             [Tag ''p'' a2 pc2] @ w3) \<and>
       strings_only (w0 @ w1 @ w2 @ w3) \<and> inline_only (hc @ pc1 @ pc2) \<and>
       get_text '' '' (Tag ''h2'' a0 hc) \<noteq> [] \<and> get_text '' '' (Tag ''p'' a1 pc1) \<noteq> [] \<and>
       get_text '' '' (Tag ''p'' a2 pc2) \<noteq> []"
  then have w0: "strings_only w0" by (simp add: strings_only_append)
  have e: "extract_blocks b64 images bd
     = [TextBlock (get_text '' '' (Tag ''h2'' a0 hc)), TextBlock (get_text '' '' (Tag ''p'' a1 pc1)),
        TextBlock (get_text '' '' (Tag ''p'' a2 pc2))]"
    using s scenario_blocks [of w0 w1 w2 w3 hc pc1 pc2 a0 a1 a2 b64 images ba] by simp
  have "find_tag [''h1'', ''h2'', ''h3''] bd = Some (Tag ''h2'' a0 hc)"
    using s scenario_heading [OF w0] by simp
  then have "chap_title_of bt soup = get_text [] (Tag ''h2'' a0 hc)" using t by simp
  then show "load_item b64 bt images chs (EpubHtml soup) =
           chs @ [\<lparr>ctitle = get_text [] (Tag ''h2'' a0 hc),
                   cblocks = [TextBlock (get_text '' '' (Tag ''h2'' a0 hc)),
                              TextBlock (get_text '' '' (Tag ''p'' a1 pc1)),
                              TextBlock (get_text '' '' (Tag ''p'' a2 pc2))]\<rparr>]"
    using b e by (simp add: Let_def)
qed


text \<open>
  The document of the scenario gives three blocks, not two. With inline markup in the
  heading, the title (\<^verbatim>\<open>HelloWorld\<close>) is not the text of the heading's block
  (\<^verbatim>\<open>Hello World\<close>).
\<close>

theorem heading_block_counterexample:
  "chapters (load id ''libro'' \<lparr>dc_title = [], dc_creator = [], get_items = [EpubHtml doc0]\<rparr>)
     = [\<lparr>ctitle = ''Intro'',
         cblocks = [TextBlock ''Intro'', TextBlock ''Uno'', TextBlock ''Dos'']\<rparr>] \<and>
   chapters (load id ''libro'' \<lparr>dc_title = [], dc_creator = [], get_items = [EpubHtml doc0]\<rparr>)
     \<noteq> [\<lparr>ctitle = ''Intro'', cblocks = [TextBlock ''Uno'', TextBlock ''Dos'']\<rparr>] \<and>
   chapters (load id ''libro'' \<lparr>dc_title = [], dc_creator = [], get_items = [EpubHtml doc2]\<rparr>)
     = [\<lparr>ctitle = ''HelloWorld'',
         cblocks = [TextBlock ''Hello World'', TextBlock ''Uno'', TextBlock ''Dos tres'']\<rparr>]"
  by (simp add: load_doc0 load_doc2)

theorem heading_chapter_witness:
  "descendants doc2 =
     ([OtherString ''xml version='1.0' encoding='utf-8'?'', NavigableString [CHR 0x0A],
       OtherString ''html'', NavigableString [CHR 0x0A], html1,
       NavigableString (CHR 0x0A # ''  ''), head1] @ descendants head1 @
      [NavigableString (CHR 0x0A # ''  '')]) @
     bd1 # descendants bd1 @ [NavigableString [CHR 0x0A], NavigableString [CHR 0x0A]] \<and>
   has_name [''body''] bd1 \<and>
   body doc2 = Some bd1 \<and>
   find_tag [''h1'', ''h2'', ''h3''] bd1
     = Some (Tag ''h2'' [] [NavigableString ''Hello '', Tag ''b'' [] [NavigableString ''World'']]) \<and>
   chap_title_of ''libro'' doc2 = ''HelloWorld'' \<and>
   strings_only ([] @ [NavigableString [CHR 0x0A]] @ [NavigableString [CHR 0x0A]] @
                 [NavigableString [CHR 0x0A]]) \<and>
   inline_only ([NavigableString ''Hello '', Tag ''b'' [] [NavigableString ''World'']] @
                [NavigableString ''Uno''] @
                [NavigableString ''Dos '', Tag ''i'' [] [NavigableString ''tres'']]) \<and>
   load_item id ''libro'' [] [] (EpubHtml doc2) =
     [\<lparr>ctitle = ''HelloWorld'',
       cblocks = [TextBlock ''Hello World'', TextBlock ''Uno'', TextBlock ''Dos tres'']\<rparr>] \<and>
   body (Tag ''[document]'' [] [bd0]) = Some bd0 \<and>
   find_tag [''h1'', ''h2'', ''h3''] bd0 = None \<and>
   chap_title_of ''libro'' (Tag ''[document]'' [] [bd0]) = ''libro'' \<and>
   get_text '' '' (Tag ''p'' [] [NavigableString '' Uno '']) = ''Uno''"
  using heading_chapter [where soup = doc2
      and pre = "[OtherString ''xml version='1.0' encoding='utf-8'?'', NavigableString [CHR 0x0A],
       OtherString ''html'', NavigableString [CHR 0x0A], html1,
       NavigableString (CHR 0x0A # ''  ''), head1] @ descendants head1 @
      [NavigableString (CHR 0x0A # ''  '')]"
      and bd = bd1 and post = "[NavigableString [CHR 0x0A], NavigableString [CHR 0x0A]]"
      and bt = "''libro''" and ba = "[]" and ?w0.0 = "[]"
      and ?a0.0 = "[]" and hc = "[NavigableString ''Hello '', Tag ''b'' [] [NavigableString ''World'']]"
      and ?w1.0 = "[NavigableString [CHR 0x0A]]"
      and ?a1.0 = "[]" and ?pc1.0 = "[NavigableString ''Uno'']"
      and ?w2.0 = "[NavigableString [CHR 0x0A]]"
      and ?a2.0 = "[]" and ?pc2.0 = "[NavigableString ''Dos '', Tag ''i'' [] [NavigableString ''tres'']]"
      and ?w3.0 = "[NavigableString [CHR 0x0A]]"
      and ?b64.0 = id and images = "[]" and chs = "[]"
      and sep = "'' ''" and n = "''p''" and a = "[]" and s = "'' Uno ''"]
    heading_chapter [where soup = "Tag ''[document]'' [] [bd0]" and pre = "[]" and bd = bd0
      and post = "[]" and bt = "''libro''" and ba = "[]" and ?w0.0 = "[]"
      and ?a0.0 = "[]" and hc = "[]" and ?w1.0 = "[]" and ?a1.0 = "[]" and ?pc1.0 = "[]"
      and ?w2.0 = "[]" and ?a2.0 = "[]" and ?pc2.0 = "[]" and ?w3.0 = "[]"
      and ?b64.0 = id and images = "[]" and chs = "[]"
      and sep = "[]" and n = "[]" and a = "[]" and s = "[]"]
  by (simp add: load_eval doc2_def html1_def head1_def bd1_def bd0_def
      strings_only_def inline_only_def nodes_of_def py_strip_def py_isspace_def)


section \<open>The cost of a block\<close>

lemma img_cost_vals:
  "img_cost 5760 = 2015" "img_cost 5236 = 1832" "img_cost 4800 = 1680"
  "img_cost 4430 = 1550" "img_cost 4114 = 1439" "img_cost 3840 = 1344"
  "img_cost 3600 = 1260" "img_cost 3388 = 1185" "img_cost 3200 = 1120"
  "img_cost 3031 = 1060" "img_cost 2880 = 1007" "img_cost 2742 = 959"
  "img_cost 2618 = 916" "img_cost 2504 = 876" "img_cost 2400 = 840"
  "img_cost 2304 = 806" "img_cost 2215 = 775" "img_cost 2133 = 746"
  "img_cost 2057 = 719" "img_cost 1986 = 695" "img_cost 1920 = 672"
  "img_cost 1858 = 650" "img_cost 1800 = 630" "img_cost 1745 = 610"
  "img_cost 1694 = 592" "img_cost 1645 = 575" "img_cost 1600 = 560"
  "img_cost 1556 = 544" "img_cost 1515 = 530" "img_cost 1476 = 516"
  "img_cost 1440 = 503" "img_cost 1404 = 491" "img_cost 1371 = 479"
  "img_cost 1339 = 468" "img_cost 1309 = 458" "img_cost 1280 = 448"
  "img_cost 1252 = 438" "img_cost 1225 = 428" "img_cost 1200 = 420"
  "img_cost 1175 = 411" "img_cost 1152 = 403" "img_cost 1129 = 395"
  "img_cost 1107 = 387" "img_cost 1086 = 380" "img_cost 1066 = 373"
  "img_cost 1047 = 366" "img_cost 1028 = 359" "img_cost 1010 = 353"
  "img_cost 993 = 347" "img_cost 976 = 341" "img_cost 960 = 336"
  "img_cost 944 = 330" "img_cost 929 = 325" "img_cost 914 = 319"
  "img_cost 900 = 315" "img_cost 886 = 310" "img_cost 872 = 305"
  "img_cost 859 = 300" "img_cost 847 = 296" "img_cost 834 = 291"
  "img_cost 822 = 287" "img_cost 811 = 283" "img_cost 800 = 280"
  by (simp_all add: img_cost_eval)

lemma chars_per_page_10: "fs \<le> 10 \<Longrightarrow> chars_per_page fs = 5760"
  by (simp add: chars_per_page_eq max_def)

lemma img_cost_budget:
  "img_cost (chars_per_page fs) =
     35 * chars_per_page fs div 100 - (if chars_per_page fs \<in> {1440, 2880, 5760} then 1 else 0)"
proof -
  have "fs \<le> 10 \<or> 72 \<le> fs \<or> (11 \<le> fs \<and> fs \<le> 71)"
    by linarith
  then consider "fs \<le> 10" | "72 \<le> fs" | "11 \<le> fs \<and> fs \<le> 71"
    by blast
  then show ?thesis
  proof cases
    case 1
    then show ?thesis by (simp add: chars_per_page_10 img_cost_vals)
  next
    case 2
    then show ?thesis by (simp add: chars_per_page_72 img_cost_vals)
  next
    case 3
    then have "fs \<in> set [11..71]"
      by (simp only: set_upto atLeastAtMost_iff)
    then show ?thesis
      by (auto simp: chars_per_page_eq img_cost_vals)
  qed
qed

lemma floor_035: "\<lfloor>real_of_int B * 0.35\<rfloor> = 35 * B div 100"
proof -
  have "real_of_int B * 0.35 = real_of_int (35 * B) / real_of_int 100"
    by simp
  then show ?thesis
    by (simp only: floor_divide_of_int_eq)
qed


lemma py_strip_id:
  assumes "s \<noteq> []" and "\<not> py_isspace (hd s)" and "\<not> py_isspace (last s)"
  shows "py_strip s = s"
proof -
  have 1: "dropWhile py_isspace s = s"
    using assms(2) by (simp add: dropWhile_eq_self_iff)
  have "hd (rev s) = last s" using assms(1) by (simp add: hd_rev)
  then have 2: "dropWhile py_isspace (rev s) = rev s"
    using assms(3) by (simp add: dropWhile_eq_self_iff)
  show ?thesis by (simp add: py_strip_def 1 2)
qed

lemma last_dropWhile:
  "dropWhile P xs \<noteq> [] \<Longrightarrow> last (dropWhile P xs) = last xs"
  by (metis last_appendR takeWhile_dropWhile_id)

lemma py_strip_ends:
  assumes "py_strip s \<noteq> []"
  shows "\<not> py_isspace (hd (py_strip s))" and "\<not> py_isspace (last (py_strip s))"
proof -
  let ?u = "dropWhile py_isspace s"
  let ?w = "dropWhile py_isspace (rev ?u)"
  have w: "?w \<noteq> []" using assms by (simp add: py_strip_def)
  have u: "?u \<noteq> []"
  proof
    assume "?u = []"
    then have "?w = []" by (simp only: rev.simps dropWhile.simps)
    with w show False by simp
  qed
  have "\<not> py_isspace (hd ?w)" using w by (rule hd_dropWhile)
  moreover have "last (py_strip s) = hd ?w"
    using w by (simp add: py_strip_def last_rev)
  ultimately show "\<not> py_isspace (last (py_strip s))" by simp
  have "hd (py_strip s) = last ?w"
    using w by (simp add: py_strip_def hd_rev)
  also have "\<dots> = last (rev ?u)" using w by (rule last_dropWhile)
  also have "\<dots> = hd ?u" using u by (simp add: last_rev)
  finally have "hd (py_strip s) = hd ?u" .
  moreover have "\<not> py_isspace (hd ?u)" using u by (rule hd_dropWhile)
  ultimately show "\<not> py_isspace (hd (py_strip s))" by simp
qed

lemma join_ends:
  assumes "ps \<noteq> []" and "\<forall>p \<in> set ps. p \<noteq> []"
  shows "join sep ps \<noteq> [] \<and> hd (join sep ps) = hd (hd ps) \<and>
         last (join sep ps) = last (last ps)"
  using assms
proof (induction sep ps rule: join.induct)
  case (1 sep)
  then show ?case by simp
next
  case (2 sep x)
  then show ?case by simp
next
  case (3 sep x y ys)
  then have "join sep (y # ys) \<noteq> []" and "last (join sep (y # ys)) = last (last (y # ys))"
    by simp_all
  then show ?case using 3(2,3) by simp
qed

lemma get_text_trimmed: "py_strip (get_text sep elem) = get_text sep elem"
proof -
  let ?ps = "filter (\<lambda>s. s \<noteq> []) (map py_strip (concat (map string_of (descendants elem))))"
  show ?thesis
  proof (cases "?ps = []")
    case True
    then show ?thesis by (simp add: get_text_def py_strip_def)
  next
    case False
    have ne: "\<forall>p \<in> set ?ps. p \<noteq> []" by simp
    have ends: "\<forall>p \<in> set ?ps. \<not> py_isspace (hd p) \<and> \<not> py_isspace (last p)"
      using py_strip_ends by auto
    from join_ends [OF False ne, of sep]
    have j: "join sep ?ps \<noteq> []" "hd (join sep ?ps) = hd (hd ?ps)"
      "last (join sep ?ps) = last (last ?ps)"
      by simp_all
    have "hd ?ps \<in> set ?ps" "last ?ps \<in> set ?ps"
      using False by (simp_all del: set_filter)
    then have "\<not> py_isspace (hd (hd ?ps))" "\<not> py_isspace (last (last ?ps))"
      using ends by blast+
    then have "py_strip (join sep ?ps) = join sep ?ps"
      using j by (intro py_strip_id) simp_all
    then show ?thesis by (simp add: get_text_def)
  qed
qed

lemma elem_step_trimmed:
  "TextBlock t \<in> set (elem_step b64 images [] e) \<Longrightarrow> py_strip t = t"
  by (auto simp: elem_step_def text_step_def img_step_def Let_def get_text_trimmed
      split: if_splits option.splits)

lemma extract_blocks_trimmed:
  "TextBlock t \<in> set (extract_blocks b64 images bd) \<Longrightarrow> py_strip t = t"
  by (auto simp: extract_blocks_concat elem_step_trimmed)


text \<open>
  C7, as the code has it. The loop body charges \<open>block_cost\<close>: for a text block the
  length of its text as stored (the paginator does not trim; this is the specification's
  cost when the text is already trimmed, as every text block of the loader is), for an
  image block \<open>img_cost\<close> of the budget, whatever the image. At the budget of any font
  size, \<open>img_cost\<close> is the floor of 0.35 times the budget, except at the budgets 1440, 2880
  and 5760 (font sizes 40, 20 and 10 or less): there the double-precision product falls
  just short of a whole number and the cost is one less.
\<close>

theorem block_cost_charged:
  "current_chars (add_block limit ci ct st blk)
     = (if must_flush limit st blk then 0 else current_chars st) + block_cost limit blk \<and>
   block_cost limit (TextBlock t) = int (length t) \<and>
   (py_strip t = t \<longrightarrow> block_cost limit (TextBlock t) = spec_block_cost limit (TextBlock t)) \<and>
   (TextBlock t \<in> set (extract_blocks b64 images bd) \<longrightarrow>
      block_cost limit (TextBlock t) = spec_block_cost limit (TextBlock t)) \<and>
   block_cost limit (ImageBlock d a) = img_cost limit \<and>
   img_cost (chars_per_page fs) =
     spec_block_cost (chars_per_page fs) (ImageBlock d a)
       - (if chars_per_page fs \<in> {1440, 2880, 5760} then 1 else 0)"
proof (intro conjI impI)
  show "current_chars (add_block limit ci ct st blk)
     = (if must_flush limit st blk then 0 else current_chars st) + block_cost limit blk"
    by (simp add: add_block_eq flush_page_def must_flush_def)
  show "block_cost limit (TextBlock t) = int (length t)"
    by (simp add: block_cost_def)
  show "block_cost limit (ImageBlock d a) = img_cost limit"
    by (simp add: block_cost_def)
  show "img_cost (chars_per_page fs) =
     spec_block_cost (chars_per_page fs) (ImageBlock d a)
       - (if chars_per_page fs \<in> {1440, 2880, 5760} then 1 else 0)"
    unfolding spec_block_cost_def block.case floor_035 by (rule img_cost_budget)
next
  assume "py_strip t = t"
  then show "block_cost limit (TextBlock t) = spec_block_cost limit (TextBlock t)"
    by (simp add: block_cost_def spec_block_cost_def)
next
  assume "TextBlock t \<in> set (extract_blocks b64 images bd)"
  then have "py_strip t = t" by (rule extract_blocks_trimmed)
  then show "block_cost limit (TextBlock t) = spec_block_cost limit (TextBlock t)"
    by (simp add: block_cost_def spec_block_cost_def)
qed

text \<open>
  At font size 20 the budget is 2880; the code charges 1007 for an image, the
  specification's rule gives 1008.
\<close>

theorem image_cost_counterexample:
  "current_chars (add_block (chars_per_page 20) 0 []
      \<lparr>pages = [], current_blocks = [], current_chars = 0, page_counter = 1\<rparr>
      (ImageBlock [] [])) = 1007 \<and>
   spec_block_cost (chars_per_page 20) (ImageBlock [] []) = 1008"
  by (simp add: chars_per_page_eq img_cost_vals spec_block_cost_def)

theorem block_cost_charged_witness:
  "py_strip ''abc'' = ''abc'' \<and>
   block_cost 800 (TextBlock ''abc'') = spec_block_cost 800 (TextBlock ''abc'') \<and>
   block_cost 800 (TextBlock ''abc'') = 3 \<and>
   TextBlock ''Uno'' \<in> set (extract_blocks id images0 bd0) \<and>
   block_cost 800 (TextBlock ''Uno'') = spec_block_cost 800 (TextBlock ''Uno'') \<and>
   img_cost (chars_per_page 18) = spec_block_cost (chars_per_page 18) (ImageBlock [] []) \<and>
   img_cost (chars_per_page 20) = spec_block_cost (chars_per_page 20) (ImageBlock [] []) - 1"
  using block_cost_charged [where limit = 800 and ci = 0 and ct = "[]"
      and st = "\<lparr>pages = [], current_blocks = [], current_chars = 0, page_counter = 1\<rparr>"
      and blk = "TextBlock ''abc''" and t = "''abc''" and ?b64.0 = id and images = images0
      and bd = bd0 and d = "[]" and a = "[]" and fs = 18]
    block_cost_charged [where limit = 800 and ci = 0 and ct = "[]"
      and st = "\<lparr>pages = [], current_blocks = [], current_chars = 0, page_counter = 1\<rparr>"
      and blk = "TextBlock ''abc''" and t = "''Uno''" and ?b64.0 = id and images = images0
      and bd = bd0 and d = "[]" and a = "[]" and fs = 20]
  by (simp add: py_strip_def py_isspace_def chars_per_page_eq extract_bd0)

end
